theory Spec2Isabelle
  imports Complex_Main "HOL-Library.Word"
begin

unbundle bit_operations_syntax

section \<open>Driver for the 3DM-GX3-25 (imu\_3dm\_gx3.cc)\<close>

subsection \<open>Machine types and constants\<close>

type_synonym u8 = "8 word"
type_synonym u16 = "16 word"
type_synonym u32 = "32 word"

text \<open>
  A C \<open>float\<close> is represented by its four-byte IEEE-754 object representation, and a
  C \<open>int\<close> by its two's-complement one (\<open>sint\<close> reads the value).
\<close>

type_synonym float32 = u32
type_synonym int32 = u32

definition REPLY_LENGTH :: u16 where "REPLY_LENGTH = 4"
definition STOP_CMD_LENGTH :: nat where "STOP_CMD_LENGTH = 3"
definition MODE_CMD_LENGTH :: nat where "MODE_CMD_LENGTH = 4"
definition DATA_LENGTH :: u16 where "DATA_LENGTH = 79"
definition GRAVITY_CONSTANT :: rat where "GRAVITY_CONSTANT = 9807 / 1000"

subsection \<open>Byte order of the host\<close>

text \<open>
  \<open>extract_float\<close> and \<open>extract_int\<close> fill the object \<open>tmp\<close> byte by byte through an
  \<open>unsigned char*\<close>. Which value \<open>tmp\<close> then holds depends on how the host lays the four
  bytes of a 32-bit object out in memory, so that layout is a parameter of the model.
  \<open>load32 h m\<close> is the value of a 32-bit object whose bytes at the addresses
  \<open>+0, +1, +2, +3\<close> are \<open>m ! 0, m ! 1, m ! 2, m ! 3\<close>.
\<close>

datatype endianness = LittleEndian | BigEndian

definition be32 :: "u8 \<Rightarrow> u8 \<Rightarrow> u8 \<Rightarrow> u8 \<Rightarrow> u32" where
  "be32 b0 b1 b2 b3 =
     push_bit 24 (ucast b0) OR push_bit 16 (ucast b1) OR push_bit 8 (ucast b2) OR ucast b3"

definition load32 :: "endianness \<Rightarrow> u8 list \<Rightarrow> u32" where
  "load32 h m =
     (case h of
        LittleEndian \<Rightarrow> be32 (m ! 3) (m ! 2) (m ! 1) (m ! 0)
      | BigEndian \<Rightarrow> be32 (m ! 0) (m ! 1) (m ! 2) (m ! 3))"

subsection \<open>extract\_float, extract\_int\<close>

text \<open>
  The pointer argument \<open>addr\<close> is a buffer with an offset; the four reads
  \<open>addr[0..3]\<close> outside the buffer are undefined behaviour (\<open>None\<close>). \<open>tmp\<close> starts
  uninitialised; all four of its bytes are written before it is read.
\<close>

definition extract_float :: "endianness \<Rightarrow> u8 list \<Rightarrow> nat \<Rightarrow> float32 option" where
  "extract_float h buf addr =
     (if addr + 3 < length buf then
        (let tmp = replicate 4 (0 :: u8);
             tmp = tmp[3 := buf ! addr];
             tmp = tmp[2 := buf ! (addr + 1)];
             tmp = tmp[1 := buf ! (addr + 2)];
             tmp = tmp[0 := buf ! (addr + 3)]
         in Some (load32 h tmp))
      else None)"

definition extract_int :: "endianness \<Rightarrow> u8 list \<Rightarrow> nat \<Rightarrow> int32 option" where
  "extract_int h buf addr =
     (if addr + 3 < length buf then
        (let tmp = replicate 4 (0 :: u8);
             tmp = tmp[3 := buf ! addr];
             tmp = tmp[2 := buf ! (addr + 1)];
             tmp = tmp[1 := buf ! (addr + 2)];
             tmp = tmp[0 := buf ! (addr + 3)]
         in Some (load32 h tmp))
      else None)"

subsection \<open>validate\_checksum\<close>

text \<open>
  \<open>chksum\<close>, \<open>rchksum\<close>, \<open>i\<close> and \<open>length\<close> are \<open>unsigned short\<close>. The loop test
  \<open>i < length - 2\<close> is evaluated in \<open>int\<close> after promotion, so \<open>length - 2\<close> is negative
  for a length below 2. A read outside \<open>data\<close> is undefined behaviour (\<open>None\<close>).
\<close>

function checksum_loop :: "u8 list \<Rightarrow> u16 \<Rightarrow> u16 \<Rightarrow> u16 \<Rightarrow> u16 option" where
  "checksum_loop data len i chksum =
     (if uint i < uint len - 2 then
        (if unat i < length data
         then checksum_loop data len (i + 1) (chksum + ucast (data ! unat i))
         else None)
      else Some chksum)"
  by pat_completeness auto
termination
proof (relation "measure (\<lambda>(data, len, i, chksum). nat (uint len - uint i))")
  show "wf (measure (\<lambda>(data, len, i, chksum). nat (uint len - uint i)))"
    by simp
next
  fix data :: "u8 list" and len i chksum :: u16
  assume lt: "uint i < uint len - 2"
  have "uint len < 65536"
    using uint_bounded [of len] by simp
  with lt have "uint i + 1 < 65536"
    by linarith
  then have "uint (i + 1) = uint i + 1"
    by (simp add: uint_word_ariths take_bit_int_eq_self)
  with lt show "((data, len, i + 1, chksum + ucast (data ! unat i)), (data, len, i, chksum))
        \<in> measure (\<lambda>(data, len, i, chksum). nat (uint len - uint i))"
    by simp
qed

declare checksum_loop.simps [simp del]

definition validate_checksum :: "u8 list \<Rightarrow> u16 \<Rightarrow> bool option" where
  "validate_checksum data len =
     (case checksum_loop data len 0 0 of
        None \<Rightarrow> None
      | Some chksum \<Rightarrow>
          (if 2 \<le> uint len \<and> unat len - 1 < length data then
             (let rchksum = push_bit 8 (ucast (data ! (unat len - 2)));
                  rchksum = rchksum + ucast (data ! (unat len - 1))
              in Some (chksum = rchksum))
           else None))"

text \<open>The specification's wording, to compare \<open>validate_checksum\<close> with.\<close>

definition sum16 :: "u8 list \<Rightarrow> u16" where
  "sum16 bs = of_nat (sum_list (map unat bs))"

definition be16_bytes :: "u16 \<Rightarrow> u8 list" where
  "be16_bytes s = [ucast (drop_bit 8 s), ucast s]"

definition be32_bytes :: "u32 \<Rightarrow> u8 list" where
  "be32_bytes v = [ucast (drop_bit 24 v), ucast (drop_bit 16 v), ucast (drop_bit 8 v), ucast v]"

subsection \<open>Library operations taken as parameters\<close>

text \<open>
  \<open>double\<close> arithmetic, \<open>ros::Time\<close>, \<open>ros::Duration\<close> and Eigen's quaternion constructor
  are not part of the driver's source. The model is parametric in them: \<open>'d\<close> stands for
  \<open>double\<close>, \<open>'t\<close> for \<open>ros::Time\<close>, \<open>'u\<close> for \<open>ros::Duration\<close>, and a \<open>platform\<close>
  supplies the operations the driver calls, together with the byte order of the host.
\<close>

datatype 'd Vector3 = Vector3 (vec_x: 'd) (vec_y: 'd) (vec_z: 'd)

datatype 'd Quaternion = Quaternion (quat_w: 'd) (quat_x: 'd) (quat_y: 'd) (quat_z: 'd)

record ('d, 't, 'u) platform =
  host_order :: endianness
  double_of_float :: "float32 \<Rightarrow> 'd"
  double_of_int :: "int \<Rightarrow> 'd"
  double_of_rat :: "rat \<Rightarrow> 'd"
  double_mult :: "'d \<Rightarrow> 'd \<Rightarrow> 'd"
  double_div :: "'d \<Rightarrow> 'd \<Rightarrow> 'd"
  Duration :: "'d \<Rightarrow> 'u"
  time_plus :: "'t \<Rightarrow> 'u \<Rightarrow> 't"
  time_minus :: "'t \<Rightarrow> 'u \<Rightarrow> 't"
  time_zero :: 't
  quaternion_of_matrix :: "'d list list \<Rightarrow> 'd Quaternion"

subsection \<open>Messages\<close>

text \<open>The fields of \<open>sensor_msgs::Imu\<close> and \<open>sensor_msgs::MagneticField\<close> the driver assigns.\<close>

record 't Header =
  stamp :: 't
  frame_id :: string

record 't Stamped =
  header :: "'t Header"

record ('d, 't) Imu = "'t Stamped" +
  orientation :: "'d Quaternion"
  orientation_covariance :: "'d list"
  angular_velocity :: "'d Vector3"
  linear_acceleration :: "'d Vector3"

record ('d, 't) MagneticField = "'t Stamped" +
  magnetic_field :: "'d Vector3"

definition default_Imu :: "('d, 't, 'u) platform \<Rightarrow> ('d, 't) Imu" where
  "default_Imu P =
     (let z = double_of_rat P 0 in
      \<lparr>header = \<lparr>stamp = time_zero P, frame_id = []\<rparr>,
       orientation = Quaternion z z z z,
       orientation_covariance = replicate 9 z,
       angular_velocity = Vector3 z z z,
       linear_acceleration = Vector3 z z z\<rparr>)"

definition default_MagneticField :: "('d, 't, 'u) platform \<Rightarrow> ('d, 't) MagneticField" where
  "default_MagneticField P =
     (let z = double_of_rat P 0 in
      \<lparr>header = \<lparr>stamp = time_zero P, frame_id = []\<rparr>,
       magnetic_field = Vector3 z z z\<rparr>)"

subsection \<open>The world the driver runs in\<close>

text \<open>
  What the driver does to its surroundings is recorded as a trace of events. Its
  surroundings are: the outcome of each attempt to open the port (\<open>open_script\<close>), the
  bytes the device delivers (\<open>rx\<close>), the wall clock (\<open>clock\<close>) and the successive answers of
  \<open>n.ok()\<close> (\<open>ok_script\<close>). The globals \<open>reply\<close> and \<open>mode\<close> are part of the state. The
  asynchronous \<open>signal_handler\<close> is not modelled.
\<close>

datatype open_result = OpenOk | OpenThrows | OpenStaysClosed

datatype severity = INFO | WARN | ERROR

datatype ('d, 't, 'u) event =
    Open string
  | SetOptions int
  | Close
  | Write "u8 list"
  | Sleep 'u
  | Log severity string
  | PublishImu "('d, 't) Imu"
  | PublishMag "('d, 't) MagneticField"

text \<open>
  How a run ends: \<open>main\<close> returns; an exception of the serial library is not caught; a
  read never gets its bytes; or an array is read out of bounds.
\<close>

datatype status = Return int | SystemError | Blocked | Undefined

record ('d, 't, 'u) world =
  is_open :: bool
  open_script :: "nat \<Rightarrow> open_result"
  opens :: nat
  rx :: "u8 list"
  clock :: 't
  ok_script :: "nat \<Rightarrow> bool"
  polls :: nat
  reply :: "u8 list"
  mode :: "u8 list"
  trace :: "('d, 't, 'u) event list"

definition stop :: "u8 list" where
  "stop = [0xFA, 0x75, 0xB4]"

definition initial_world ::
  "(nat \<Rightarrow> open_result) \<Rightarrow> u8 list \<Rightarrow> 't \<Rightarrow> (nat \<Rightarrow> bool) \<Rightarrow> ('d, 't, 'u) world" where
  "initial_world os bytes now oks =
     \<lparr>is_open = False, open_script = os, opens = 0, rx = bytes, clock = now,
      ok_script = oks, polls = 0,
      reply = replicate (unat REPLY_LENGTH) 0,
      mode = [0xD4, 0xA3, 0x47, 0x00],
      trace = []\<rparr>"

record 'd params =
  port_param :: "string option"
  baud_param :: "int option"
  frame_id_param :: "string option"
  delay_param :: "'d option"

type_synonym ('d, 't, 'u) result = "(status \<times> ('d, 't, 'u) world) + ('d, 't, 'u) world"

definition emit :: "('d, 't, 'u) event \<Rightarrow> ('d, 't, 'u) world \<Rightarrow> ('d, 't, 'u) world" where
  "emit e w = w\<lparr>trace := trace w @ [e]\<rparr>"

definition serial_close :: "('d, 't, 'u) world \<Rightarrow> ('d, 't, 'u) world" where
  "serial_close w = emit Close (w\<lparr>is_open := False\<rparr>)"

definition serial_write :: "u8 list \<Rightarrow> ('d, 't, 'u) world \<Rightarrow> ('d, 't, 'u) result" where
  "serial_write bytes w =
     (if is_open w then Inr (emit (Write bytes) w) else Inl (SystemError, w))"

definition serial_read ::
  "nat \<Rightarrow> ('d, 't, 'u) world \<Rightarrow> (status \<times> ('d, 't, 'u) world) + (u8 list \<times> ('d, 't, 'u) world)" where
  "serial_read n w =
     (if \<not> is_open w then Inl (SystemError, w)
      else if length (rx w) < n then Inl (Blocked, w)
      else Inr (take n (rx w), w\<lparr>rx := drop n (rx w)\<rparr>))"

text \<open>\<open>boost::asio::buffer(a, n)\<close> as a read target: the first bytes of the array \<open>a\<close> are overwritten.\<close>

definition store_into :: "u8 list \<Rightarrow> u8 list \<Rightarrow> u8 list" where
  "store_into a bytes = bytes @ drop (length bytes) a"

definition sleep_100ms :: "('d, 't, 'u) platform \<Rightarrow> ('d, 't, 'u) world \<Rightarrow> ('d, 't, 'u) world" where
  "sleep_100ms P w = emit (Sleep (Duration P (double_of_rat P (1 / 10)))) w"

subsection \<open>main: opening the port and the handshake\<close>

text \<open>
  A step of \<open>main\<close> either ends the run (\<open>Inl\<close>, with the status and the final world)
  or hands the world on (\<open>Inr\<close>).
\<close>

fun run_steps ::
  "(('d, 't, 'u) world \<Rightarrow> ('d, 't, 'u) result) list \<Rightarrow> ('d, 't, 'u) world \<Rightarrow> ('d, 't, 'u) result" where
  "run_steps [] w = Inr w"
| "run_steps (s # ss) w = (case s w of Inl r \<Rightarrow> Inl r | Inr w' \<Rightarrow> run_steps ss w')"

text \<open>
  Lines 105--121 and 139--142, and again lines 165--184: \<open>open\<close> inside \<open>try\<close>, the
  \<open>is_open\<close> test, the four \<open>set_option\<close> calls.
\<close>

definition open_port :: "int \<Rightarrow> string \<Rightarrow> ('d, 't, 'u) world \<Rightarrow> ('d, 't, 'u) result" where
  "open_port baud port w =
     (let r = open_script w (opens w);
          w1 = emit (Open port) (w\<lparr>opens := Suc (opens w)\<rparr>)
      in case r of
           OpenThrows \<Rightarrow>
             Inl (Return (- 1), emit (Log ERROR ''%s: Failed to open port %s with error %s'') w1)
         | OpenStaysClosed \<Rightarrow>
             (if \<not> is_open w1
              then Inl (Return (- 1), emit (Log ERROR ''%s: failed to open serial port %s'') w1)
              else Inr (emit (SetOptions baud) w1))
         | OpenOk \<Rightarrow>
             (let w2 = w1\<lparr>is_open := True\<rparr>
              in if \<not> is_open w2
                 then Inl (Return (- 1), emit (Log ERROR ''%s: failed to open serial port %s'') w2)
                 else Inr (emit (SetOptions baud) w2)))"

text \<open>Lines 145--147, and again lines 311--313.\<close>

definition stop_streaming :: "('d, 't, 'u) platform \<Rightarrow> ('d, 't, 'u) world \<Rightarrow> ('d, 't, 'u) result" where
  "stop_streaming P w =
     (case serial_write (take STOP_CMD_LENGTH stop) w of
        Inl r \<Rightarrow> Inl r
      | Inr w1 \<Rightarrow> Inr (sleep_100ms P (emit (Log WARN ''Wait 0.1s'') w1)))"

text \<open>
  The exchange the handshake repeats (lines 151--153, 186--188, 201--203, 215--218,
  228--230): write a command, read \<open>REPLY_LENGTH\<close> bytes into \<open>reply\<close>, call
  \<open>validate_checksum(reply, REPLY_LENGTH)\<close>.
\<close>

definition exchange ::
  "u8 list \<Rightarrow> ('d, 't, 'u) world \<Rightarrow> (status \<times> ('d, 't, 'u) world) + (bool \<times> ('d, 't, 'u) world)" where
  "exchange cmd w =
     (case serial_write cmd w of
        Inl r \<Rightarrow> Inl r
      | Inr w1 \<Rightarrow>
          (case serial_read (unat REPLY_LENGTH) w1 of
             Inl r \<Rightarrow> Inl r
           | Inr (bytes, w2) \<Rightarrow>
               (let w3 = w2\<lparr>reply := store_into (reply w2) bytes\<rparr>
                in case validate_checksum (reply w3) REPLY_LENGTH of
                     None \<Rightarrow> Inl (Undefined, w3)
                   | Some valid \<Rightarrow> Inr (valid, w3))))"

text \<open>The error exit of a handshake step: \<open>ROS_ERROR\<close>, then \<open>close\<close> if the port is open.\<close>

definition fail_close :: "string \<Rightarrow> ('d, 't, 'u) world \<Rightarrow> ('d, 't, 'u) world" where
  "fail_close msg w =
     (let w1 = emit (Log ERROR msg) w in if is_open w1 then serial_close w1 else w1)"

text \<open>Lines 149--195: the mode query and, when \<open>reInitFlag\<close> is set, its one repetition.\<close>

definition check_mode ::
  "('d, 't, 'u) platform \<Rightarrow> int \<Rightarrow> string \<Rightarrow> ('d, 't, 'u) world \<Rightarrow> ('d, 't, 'u) result" where
  "check_mode P baud port w =
     (case exchange (take MODE_CMD_LENGTH (mode w)) w of
        Inl r \<Rightarrow> Inl r
      | Inr (valid, w1) \<Rightarrow>
          (let reInitFlag = \<not> valid;
               w2 = (if \<not> valid then fail_close ''%s: failed to get mode'' w1 else w1)
           in if reInitFlag then
                (let w3 = sleep_100ms P (emit (Log WARN ''In Re-Init'') w2)
                 in case open_port baud port w3 of
                      Inl r \<Rightarrow> Inl r
                    | Inr w4 \<Rightarrow>
                        (case exchange (take 4 (mode w4)) w4 of
                           Inl r \<Rightarrow> Inl r
                         | Inr (valid', w5) \<Rightarrow>
                             if \<not> valid'
                             then Inl (Return (- 1), fail_close ''%s: failed to get mode'' w5)
                             else Inr w5))
              else Inr w2))"

text \<open>Lines 197--210.\<close>

definition set_active :: "('d, 't, 'u) world \<Rightarrow> ('d, 't, 'u) result" where
  "set_active w =
     (if 2 < length (reply w) then
        (if reply w ! 2 \<noteq> 1 then
           (let w1 = w\<lparr>mode := (mode w)[3 := 1]\<rparr>
            in case exchange (take 4 (mode w1)) w1 of
                 Inl r \<Rightarrow> Inl r
               | Inr (valid, w2) \<Rightarrow>
                   if \<not> valid
                   then Inl (Return (- 1), fail_close ''%s: failed to set mode to active'' w2)
                   else Inr w2)
         else Inr w)
      else Inl (Undefined, w))"

text \<open>Lines 212--224.\<close>

definition preset :: "u8 list" where
  "preset = [0xD6, 0xC6, 0x6B, 0xCC]"

definition set_preset :: "('d, 't, 'u) world \<Rightarrow> ('d, 't, 'u) result" where
  "set_preset w =
     (case exchange (take 4 preset) w of
        Inl r \<Rightarrow> Inl r
      | Inr (valid, w1) \<Rightarrow>
          if \<not> valid
          then Inl (Return (- 1), fail_close ''%s: failed to set continuous mode preset'' w1)
          else Inr w1)"

text \<open>Lines 226--236.\<close>

definition set_continuous :: "('d, 't, 'u) world \<Rightarrow> ('d, 't, 'u) result" where
  "set_continuous w =
     (let w1 = w\<lparr>mode := (mode w)[3 := 2]\<rparr>
      in case exchange (take 4 (mode w1)) w1 of
           Inl r \<Rightarrow> Inl r
         | Inr (valid, w2) \<Rightarrow>
             if \<not> valid
             then Inl (Return (- 1), fail_close ''%s: failed to set mode to continuous output'' w2)
             else Inr w2)"

text \<open>
  Lines 238--245: the timer command, its seven-byte reply (read into \<open>reply_timer\<close> and not
  looked at), and \<open>t0 = ros::Time::now()\<close>.
\<close>

definition set_timer_cmd :: "u8 list" where
  "set_timer_cmd = [0xD7, 0xC1, 0x29, 0x01, 0x00, 0x00, 0x00, 0x00]"

definition set_timer ::
  "('d, 't, 'u) world \<Rightarrow> (status \<times> ('d, 't, 'u) world) + ('t \<times> ('d, 't, 'u) world)" where
  "set_timer w =
     (case serial_write (take 8 set_timer_cmd) w of
        Inl r \<Rightarrow> Inl r
      | Inr w1 \<Rightarrow>
          (case serial_read 7 w1 of
             Inl r \<Rightarrow> Inl r
           | Inr (reply_timer, w2) \<Rightarrow> Inr (clock w2, w2)))"

subsection \<open>main: the streaming loop\<close>

text \<open>
  One of the four loops of lines 268--275,
  \<open>for (i = 0; i < n; i++, k += 4) a[i] = extract_float(&(data[k]))\<close>: the array filled
  and the value of \<open>k\<close> after the loop.
\<close>

fun extract_floats :: "endianness \<Rightarrow> u8 list \<Rightarrow> nat \<Rightarrow> nat \<Rightarrow> (float32 list \<times> nat) option" where
  "extract_floats h data k 0 = Some ([], k)"
| "extract_floats h data k (Suc n) =
     (case extract_float h data k of
        None \<Rightarrow> None
      | Some f \<Rightarrow>
          (case extract_floats h data (k + 4) n of
             None \<Rightarrow> None
           | Some (fs, k') \<Rightarrow> Some (f # fs, k')))"

record raw_fields =
  accel :: "float32 list"
  ang_vel :: "float32 list"
  mag :: "float32 list"
  M :: "float32 list"
  timer :: int32

text \<open>Lines 262--276, up to the call of \<open>extract_int\<close>.\<close>

definition decode_fields :: "endianness \<Rightarrow> u8 list \<Rightarrow> raw_fields option" where
  "decode_fields h data =
     (let k = 1 in
      case extract_floats h data k 3 of None \<Rightarrow> None | Some (accel_v, k) \<Rightarrow>
      case extract_floats h data k 3 of None \<Rightarrow> None | Some (ang_vel_v, k) \<Rightarrow>
      case extract_floats h data k 3 of None \<Rightarrow> None | Some (mag_v, k) \<Rightarrow>
      case extract_floats h data k 9 of None \<Rightarrow> None | Some (M_v, k) \<Rightarrow>
      case extract_int h data k of None \<Rightarrow> None | Some t \<Rightarrow>
        Some \<lparr>accel = accel_v, ang_vel = ang_vel_v, mag = mag_v, M = M_v, timer = t\<rparr>)"

text \<open>Lines 287--290: \<open>R(i,j) = M[j*3+i]\<close>; \<open>R ! i ! j\<close> is the entry in row \<open>i\<close>, column \<open>j\<close>.\<close>

definition rotation :: "('d, 't, 'u) platform \<Rightarrow> float32 list \<Rightarrow> 'd list list" where
  "rotation P Mv = map (\<lambda>i. map (\<lambda>j. double_of_float P (Mv ! (j * 3 + i))) [0..<3]) [0..<3]"

text \<open>
  The variables of \<open>main\<close> the loop uses. \<open>imu_msg\<close> and \<open>mag_msg\<close> are declared before the
  loop and keep their contents from one pass to the next.
\<close>

record ('d, 't) locals =
  loc_frame_id :: string
  loc_delay :: 'd
  loc_t0 :: 't
  imu_msg :: "('d, 't) Imu"
  mag_msg :: "('d, 't) MagneticField"

text \<open>Lines 262--306: a frame that passed the checksum is decoded and published.\<close>

definition process_frame ::
  "('d, 't, 'u) platform \<Rightarrow> ('d, 't) locals \<Rightarrow> u8 list
     \<Rightarrow> (('d, 't) locals \<times> ('d, 't, 'u) event list) option" where
  "process_frame P L data =
     (case decode_fields (host_order P) data of
        None \<Rightarrow> None
      | Some f \<Rightarrow>
          (let T = double_div P (double_of_int P (sint (timer f))) (double_of_rat P 62500);
               imu = imu_msg L;
               imu = imu\<lparr>header := (header imu)
                        \<lparr>stamp := time_minus P (time_plus P (loc_t0 L) (Duration P T))
                                    (Duration P (loc_delay L)),
                         frame_id := loc_frame_id L\<rparr>\<rparr>;
               imu = imu\<lparr>angular_velocity :=
                        Vector3 (double_of_float P (ang_vel f ! 0))
                                (double_of_float P (ang_vel f ! 1))
                                (double_of_float P (ang_vel f ! 2))\<rparr>;
               imu = imu\<lparr>linear_acceleration :=
                        Vector3
                          (double_mult P (double_of_float P (accel f ! 0))
                             (double_of_rat P GRAVITY_CONSTANT))
                          (double_mult P (double_of_float P (accel f ! 1))
                             (double_of_rat P GRAVITY_CONSTANT))
                          (double_mult P (double_of_float P (accel f ! 2))
                             (double_of_rat P GRAVITY_CONSTANT))\<rparr>;
               R = rotation P (M f);
               q = quaternion_of_matrix P R;
               imu = imu\<lparr>orientation := Quaternion (quat_w q) (quat_x q) (quat_y q) (quat_z q)\<rparr>;
               imu = imu\<lparr>orientation_covariance :=
                        (orientation_covariance imu)[0 := double_of_int P (- 1)]\<rparr>;
               mag_m = mag_msg L;
               mag_m = mag_m\<lparr>header := (header mag_m)
                        \<lparr>stamp := time_minus P (time_plus P (loc_t0 L) (Duration P T))
                                    (Duration P (loc_delay L)),
                         frame_id := loc_frame_id L\<rparr>\<rparr>;
               mag_m = mag_m\<lparr>magnetic_field :=
                        Vector3 (double_of_float P (mag f ! 0))
                                (double_of_float P (mag f ! 1))
                                (double_of_float P (mag f ! 2))\<rparr>
           in Some (L\<lparr>imu_msg := imu, mag_msg := mag_m\<rparr>, [PublishImu imu, PublishMag mag_m])))"

text \<open>
  Lines 253--308. Each pass asks \<open>n.ok()\<close>, reads \<open>DATA_LENGTH\<close> bytes into \<open>data\<close> and
  validates them; \<open>continue\<close> is the recursive call on an unchanged \<open>L\<close>. Every pass
  consumes bytes of \<open>rx\<close>, which is what the recursion descends on.
\<close>

function stream_loop ::
  "('d, 't, 'u) platform \<Rightarrow> ('d, 't) locals \<Rightarrow> ('d, 't, 'u) world \<Rightarrow> ('d, 't, 'u) result" where
  "stream_loop P L w =
     (if \<not> ok_script w (polls w) then Inr (w\<lparr>polls := Suc (polls w)\<rparr>)
      else
        (case serial_read (unat DATA_LENGTH) (w\<lparr>polls := Suc (polls w)\<rparr>) of
           Inl r \<Rightarrow> Inl r
         | Inr (bytes, w1) \<Rightarrow>
             (let data = store_into (replicate (unat DATA_LENGTH) 0) bytes
              in case validate_checksum data DATA_LENGTH of
                   None \<Rightarrow> Inl (Undefined, w1)
                 | Some False \<Rightarrow>
                     stream_loop P L (emit (Log ERROR ''%s: checksum failed on message'') w1)
                 | Some True \<Rightarrow>
                     (case process_frame P L data of
                        None \<Rightarrow> Inl (Undefined, w1)
                      | Some (L', evs) \<Rightarrow>
                          stream_loop P L' (w1\<lparr>trace := trace w1 @ evs\<rparr>)))))"
  by pat_completeness auto
termination
proof (relation "measure (\<lambda>(P, L, w). length (rx w))")
  show "wf (measure (\<lambda>(P, L, w). length (rx w)))"
    by simp
next
  fix P :: "('d, 't, 'u) platform" and L :: "('d, 't) locals" and w w1 :: "('d, 't, 'u) world"
    and x :: "u8 list \<times> ('d, 't, 'u) world" and bytes :: "u8 list"
  assume "serial_read (unat DATA_LENGTH) (w\<lparr>polls := Suc (polls w)\<rparr>) = Inr x"
    and "(bytes, w1) = x"
  then have "length (rx w1) < length (rx w)"
    by (auto simp: serial_read_def DATA_LENGTH_def split: if_splits)
  then show "((P, L, emit (Log ERROR ''%s: checksum failed on message'') w1), (P, L, w))
        \<in> measure (\<lambda>(P, L, w). length (rx w))"
    by (simp add: emit_def)
next
  fix P :: "('d, 't, 'u) platform" and L L' :: "('d, 't) locals" and w w1 :: "('d, 't, 'u) world"
    and x :: "u8 list \<times> ('d, 't, 'u) world" and bytes :: "u8 list"
    and evs :: "('d, 't, 'u) event list"
  assume "serial_read (unat DATA_LENGTH) (w\<lparr>polls := Suc (polls w)\<rparr>) = Inr x"
    and "(bytes, w1) = x"
  then have "length (rx w1) < length (rx w)"
    by (auto simp: serial_read_def DATA_LENGTH_def split: if_splits)
  then show "((P, L', w1\<lparr>trace := trace w1 @ evs\<rparr>), (P, L, w))
        \<in> measure (\<lambda>(P, L, w). length (rx w))"
    by simp
qed

declare stream_loop.simps [simp del]

text \<open>
  Lines 238--316, the part of \<open>main\<close> under \<open>// Set Timer\<close>: the timer is reset, the loop
  runs, and after the loop the device is told to stop and the port is closed. The two
  calls of \<open>advertise\<close> have no counterpart in the trace.
\<close>

definition stream_data ::
  "('d, 't, 'u) platform \<Rightarrow> string \<Rightarrow> 'd \<Rightarrow> ('d, 't, 'u) world \<Rightarrow> status \<times> ('d, 't, 'u) world" where
  "stream_data P frame_id_v delay w1 =
     (case set_timer w1 of
        Inl r \<Rightarrow> r
      | Inr (t0, w2) \<Rightarrow>
          (let w3 = emit (Log INFO ''Streaming Data...'') w2;
               L = \<lparr>loc_frame_id = frame_id_v, loc_delay = delay, loc_t0 = t0,
                    imu_msg = default_Imu P, mag_msg = default_MagneticField P\<rparr>
           in case stream_loop P L w3 of
                Inl r \<Rightarrow> r
              | Inr w4 \<Rightarrow>
                  (case stop_streaming P w4 of
                     Inl r \<Rightarrow> r
                   | Inr w5 \<Rightarrow> (Return 0, serial_close w5))))"

text \<open>
  \<open>main\<close>. Without the \<open>port\<close> parameter it returns at once; the other parameters have
  defaults.
\<close>

definition main ::
  "('d, 't, 'u) platform \<Rightarrow> 'd params \<Rightarrow> ('d, 't, 'u) world \<Rightarrow> status \<times> ('d, 't, 'u) world" where
  "main P prm w =
     (case port_param prm of
        None \<Rightarrow> (Return (- 1), emit (Log ERROR ''%s: must provide a port'') w)
      | Some port \<Rightarrow>
          (let baud = (case baud_param prm of None \<Rightarrow> 115200 | Some b \<Rightarrow> b);
               frame_id_v = (case frame_id_param prm of None \<Rightarrow> ''imu'' | Some s \<Rightarrow> s);
               delay = (case delay_param prm of None \<Rightarrow> double_of_rat P 0 | Some d \<Rightarrow> d)
           in case run_steps
                     [open_port baud port, stop_streaming P, check_mode P baud port,
                      set_active, set_preset, set_continuous] w of
                Inl r \<Rightarrow> r
              | Inr w1 \<Rightarrow> stream_data P frame_id_v delay w1))"

subsection \<open>Vocabulary for statements about whole runs\<close>

text \<open>The mode query: the command \<open>mode\<close> holds until \<open>main\<close> changes its last byte.\<close>

definition mode_query :: "u8 list" where
  "mode_query = [0xD4, 0xA3, 0x47, 0x00]"

text \<open>Events that only close the port, wait or log.\<close>

fun housekeeping :: "('d, 't, 'u) event \<Rightarrow> bool" where
  "housekeeping Close = True"
| "housekeeping (Sleep d) = True"
| "housekeeping (Log s m) = True"
| "housekeeping e = False"

text \<open>Attempts to open the port: the calls of \<open>serial.open\<close>, whether they succeed or not.\<close>

fun open_attempt :: "('d, 't, 'u) event \<Rightarrow> bool" where
  "open_attempt (Open p) = True"
| "open_attempt e = False"

text \<open>The world a step result ends in, whether the run stops there or goes on.\<close>

definition final_world :: "('d, 't, 'u) result \<Rightarrow> ('d, 't, 'u) world" where
  "final_world r = (case r of Inl (s, w) \<Rightarrow> w | Inr w \<Rightarrow> w)"

text \<open>
  \<open>advances Q w w'\<close>: the trace of \<open>w'\<close> is the trace of \<open>w\<close> followed by events that all
  satisfy \<open>Q\<close>, and the arrays \<open>reply\<close> and \<open>mode\<close> have kept their sizes.
\<close>

definition advances ::
  "(('d, 't, 'u) event \<Rightarrow> bool) \<Rightarrow> ('d, 't, 'u) world \<Rightarrow> ('d, 't, 'u) world \<Rightarrow> bool" where
  "advances Q w w' \<longleftrightarrow>
     length (reply w') = length (reply w) \<and> length (mode w') = length (mode w)
     \<and> take (length (trace w)) (trace w') = trace w
     \<and> list_all Q (drop (length (trace w)) (trace w'))"

text \<open>\<open>safe Q w r\<close>: the step result \<open>r\<close> is not undefined behaviour and advances \<open>w\<close>.\<close>

definition safe ::
  "(('d, 't, 'u) event \<Rightarrow> bool) \<Rightarrow> ('d, 't, 'u) world \<Rightarrow> ('d, 't, 'u) result \<Rightarrow> bool" where
  "safe Q w r =
     (case r of
        Inl (s, w') \<Rightarrow> s \<noteq> Undefined \<and> advances Q w w'
      | Inr w' \<Rightarrow> advances Q w w')"

text \<open>An \<open>Imu\<close> message whose first orientation covariance entry is \<open>-1\<close>; any other event passes.\<close>

fun covariance_flagged :: "('d, 't, 'u) platform \<Rightarrow> ('d, 't, 'u) event \<Rightarrow> bool" where
  "covariance_flagged P (PublishImu m) = (orientation_covariance m ! 0 = double_of_int P (- 1))"
| "covariance_flagged P e = True"

text \<open>
  What a property \<open>Q\<close> of events must allow for every step after the mode query to keep
  it: housekeeping, writes other than the mode query, \<open>MagneticField\<close> messages, and
  \<open>Imu\<close> messages whose first orientation covariance entry is \<open>-1\<close>.
\<close>

definition permits :: "('d, 't, 'u) platform \<Rightarrow> (('d, 't, 'u) event \<Rightarrow> bool) \<Rightarrow> bool" where
  "permits P Q \<longleftrightarrow>
     (\<forall>e. housekeeping e \<longrightarrow> Q e)
     \<and> (\<forall>bs. bs \<noteq> mode_query \<longrightarrow> Q (Write bs))
     \<and> (\<forall>m. Q (PublishMag m))
     \<and> (\<forall>m. orientation_covariance m ! 0 = double_of_int P (- 1) \<longrightarrow> Q (PublishImu m))"

subsection \<open>A platform with exact arithmetic\<close>

text \<open>
  An instance of the parameters, used to run the model on concrete frames: \<open>double\<close> is
  read as \<open>real\<close> with exact operations, times and durations are seconds.
  \<open>float_value\<close> is the IEEE-754 value of a binary32 pattern (an exponent field of 255,
  which encodes infinities and NaNs, has no real value and is read like any other).
  The quaternion constructor is \<open>rotation_to_quaternion\<close> below.
\<close>

definition float_value :: "float32 \<Rightarrow> real" where
  "float_value f =
     (let s = (if bit f 31 then - 1 else 1);
          e = unat (take_bit 8 (drop_bit 23 f));
          m = unat (take_bit 23 f)
      in if e = 0 then s * real m / 2 ^ 149
         else if 150 \<le> e then s * real (2 ^ 23 + m) * 2 ^ (e - 150)
         else s * real (2 ^ 23 + m) / 2 ^ (150 - e))"

text \<open>Modelled from the spec: \<open>rotation_to_quaternion\<close> is, in the driver, the constructor
  \<open>Eigen::Quaternion<double> q(R)\<close> of line 293, whose code belongs to the Eigen library and
  is missing from \<open>src/\<close>. The specification describes it as the standard numerically
  stable conversion that branches on the largest of the trace and the three diagonal
  entries; the definition is that conversion as Eigen computes it, over the reals
  (rounding is left out). \<open>R ! i ! j\<close> is the entry in row \<open>i\<close>, column \<open>j\<close>.
\<close>

definition rotation_to_quaternion :: "real list list \<Rightarrow> real Quaternion" where
  "rotation_to_quaternion R =
     (let m = (\<lambda>i j. R ! i ! j);
          t = m 0 0 + m 1 1 + m 2 2
      in if 0 < t then
           (let r = sqrt (t + 1); s = (1 / 2) / r
            in Quaternion (r / 2) ((m 2 1 - m 1 2) * s) ((m 0 2 - m 2 0) * s) ((m 1 0 - m 0 1) * s))
         else
           (let i = (if m 0 0 < m 1 1 then 1 else 0);
                i = (if m i i < m 2 2 then 2 else i);
                j = (i + 1) mod 3;
                k = (j + 1) mod 3;
                r = sqrt (m i i - m j j - m k k + 1);
                s = (1 / 2) / r;
                v = (\<lambda>n. if n = i then r / 2
                        else if n = j then (m j i + m i j) * s
                        else (m k i + m i k) * s)
            in Quaternion ((m k j - m j k) * s) (v 0) (v 1) (v (2 :: nat))))"

text \<open>
  A valid rotation matrix: three rows of three entries, orthonormal, with determinant 1.
  \<open>quat_norm2\<close> is the squared norm of a quaternion.
\<close>

definition dot3 :: "real list \<Rightarrow> real list \<Rightarrow> real" where
  "dot3 a b = a ! 0 * b ! 0 + a ! 1 * b ! 1 + a ! 2 * b ! 2"

definition det3 :: "real list list \<Rightarrow> real" where
  "det3 R =
     R ! 0 ! 0 * (R ! 1 ! 1 * R ! 2 ! 2 - R ! 1 ! 2 * R ! 2 ! 1)
     - R ! 0 ! 1 * (R ! 1 ! 0 * R ! 2 ! 2 - R ! 1 ! 2 * R ! 2 ! 0)
     + R ! 0 ! 2 * (R ! 1 ! 0 * R ! 2 ! 1 - R ! 1 ! 1 * R ! 2 ! 0)"

definition rotation_matrix :: "real list list \<Rightarrow> bool" where
  "rotation_matrix R \<longleftrightarrow>
     length R = 3 \<and> list_all (\<lambda>row. length row = 3) R
     \<and> dot3 (R ! 0) (R ! 0) = 1 \<and> dot3 (R ! 1) (R ! 1) = 1 \<and> dot3 (R ! 2) (R ! 2) = 1
     \<and> dot3 (R ! 0) (R ! 1) = 0 \<and> dot3 (R ! 0) (R ! 2) = 0 \<and> dot3 (R ! 1) (R ! 2) = 0
     \<and> det3 R = 1"

definition quat_norm2 :: "real Quaternion \<Rightarrow> real" where
  "quat_norm2 q = (quat_w q)\<^sup>2 + (quat_x q)\<^sup>2 + (quat_y q)\<^sup>2 + (quat_z q)\<^sup>2"

definition exact_platform :: "endianness \<Rightarrow> (real, real, real) platform" where
  "exact_platform h =
     \<lparr>host_order = h,
      double_of_float = float_value,
      double_of_int = of_int,
      double_of_rat = of_rat,
      double_mult = (*),
      double_div = (/),
      Duration = (\<lambda>d. d),
      time_plus = (+),
      time_minus = (-),
      time_zero = 0,
      quaternion_of_matrix = rotation_to_quaternion\<rparr>"

text \<open>
  A continuous frame for the examples: acceleration \<open>(0, 0, 1)\<close>, angular rate
  \<open>(2, 0, 0)\<close>, magnetic field \<open>(0, 1/2, 0)\<close>, the identity matrix, a timer count of
  62500 (\<open>0x0000F424\<close>), and the checksum \<open>0x055F\<close> of the 77 bytes before it.
\<close>

definition sample_frame :: "u8 list" where
  "sample_frame =
     [0xCC,
      0, 0, 0, 0,  0, 0, 0, 0,  0x3F, 0x80, 0, 0,
      0x40, 0, 0, 0,  0, 0, 0, 0,  0, 0, 0, 0,
      0, 0, 0, 0,  0x3F, 0, 0, 0,  0, 0, 0, 0,
      0x3F, 0x80, 0, 0,  0, 0, 0, 0,  0, 0, 0, 0,
      0, 0, 0, 0,  0x3F, 0x80, 0, 0,  0, 0, 0, 0,
      0, 0, 0, 0,  0, 0, 0, 0,  0x3F, 0x80, 0, 0,
      0, 0, 0xF4, 0x24,
      0x05, 0x5F]"

text \<open>
  Worlds and variables for the examples: the state once the handshake is through, with
  the bytes still to come and the number of passes \<open>n.ok()\<close> allows; and the variables of
  \<open>main\<close> at the start of the loop, with \<open>t0 = 100\<close> and a delay of a quarter second.
\<close>

definition streaming_world :: "u8 list \<Rightarrow> nat \<Rightarrow> (real, real, real) world" where
  "streaming_world bytes n =
     \<lparr>is_open = True, open_script = (\<lambda>k. OpenOk), opens = 1, rx = bytes, clock = 100,
      ok_script = (\<lambda>k. k < n), polls = 0,
      reply = [0xD4, 0x02, 0x00, 0xD6],
      mode = [0xD4, 0xA3, 0x47, 0x02],
      trace = []\<rparr>"

definition example_locals :: "(real, real) locals" where
  "example_locals =
     \<lparr>loc_frame_id = ''imu'', loc_delay = 1 / 4, loc_t0 = 100,
      imu_msg = default_Imu (exact_platform LittleEndian),
      mag_msg = default_MagneticField (exact_platform LittleEndian)\<rparr>"

text \<open>The sample frame with its last checksum byte changed.\<close>

definition bad_frame :: "u8 list" where
  "bad_frame = sample_frame[78 := 0x60]"

text \<open>The value \<open>extract_float\<close> and \<open>extract_int\<close> return at offset \<open>k\<close> of a frame.\<close>

definition field32 :: "endianness \<Rightarrow> u8 list \<Rightarrow> nat \<Rightarrow> u32" where
  "field32 h data k = load32 h [data ! (k + 3), data ! (k + 2), data ! (k + 1), data ! k]"

text \<open>
  The specification's wording, to compare the decoded fields with: the big-endian field
  at offset \<open>k\<close>, whose most significant byte is \<open>data ! k\<close>.
\<close>

definition be_field :: "u8 list \<Rightarrow> nat \<Rightarrow> u32" where
  "be_field data k = be32 (data ! k) (data ! (k + 1)) (data ! (k + 2)) (data ! (k + 3))"

text \<open>
  A whole run for the examples: the port opens, the device answers the three handshake
  commands with replies whose checksums are right (the first one reports the active
  mode), acknowledges the timer command, sends the sample frame, and \<open>n.ok()\<close> holds for
  one pass.
\<close>

definition sample_session :: "u8 list" where
  "sample_session =
     [0xD4, 0xA3, 0x01, 0x77] @ [0xD6, 0xC6, 0x01, 0x9C] @ [0xD4, 0xA3, 0x01, 0x77]
     @ [0xD7, 0, 0, 0, 0, 0, 0xD7] @ sample_frame"

definition sample_params :: "real params" where
  "sample_params =
     \<lparr>port_param = Some ''/dev/ttyACM0'', baud_param = None, frame_id_param = None,
      delay_param = Some (1 / 4)\<rparr>"

definition sample_world :: "(real, real, real) world" where
  "sample_world = initial_world (\<lambda>k. OpenOk) sample_session 100 (\<lambda>k. k < 1)"

text \<open>
  The same run, except that the device first sends a reply to the mode query whose
  checksum is wrong (\<open>D4 A3 00 00\<close>); and a run in which the second reply is wrong too.
\<close>

definition retry_world :: "(real, real, real) world" where
  "retry_world =
     initial_world (\<lambda>k. OpenOk) ([0xD4, 0xA3, 0, 0] @ sample_session) 100 (\<lambda>k. k < 1)"

definition failing_world :: "(real, real, real) world" where
  "failing_world =
     initial_world (\<lambda>k. OpenOk) ([0xD4, 0xA3, 0, 0] @ [0xD4, 0xA3, 0, 0]) 100 (\<lambda>k. True)"

section \<open>Properties\<close>

subsection \<open>Bytes and words\<close>

lemma join_or:
  fixes hi lo :: u8
  shows "(push_bit 8 (ucast hi) + ucast lo :: u16) = push_bit 8 (ucast hi) OR ucast lo"
  by (rule disjunctive_add_eq_or) (auto simp: bit_eq_iff bit_simps dest: bit_imp_le_length)

lemma be16_split_join:
  fixes hi lo :: u8
  shows "ucast (drop_bit 8 (push_bit 8 (ucast hi) OR ucast lo :: u16)) = hi"
    and "ucast (push_bit 8 (ucast hi) OR ucast lo :: u16) = lo"
  by (rule bit_word_eqI; auto simp: bit_simps dest: bit_imp_le_length)+

lemma be16_join_split:
  fixes s :: u16
  shows "push_bit 8 (ucast (ucast (drop_bit 8 s) :: u8)) OR ucast (ucast s :: u8) = s"
proof (rule bit_word_eqI)
  fix n assume "n < LENGTH(16)"
  then consider "n < 8" | "8 \<le> n" "n < 16"
    by fastforce
  then show "bit (push_bit 8 (ucast (ucast (drop_bit 8 s) :: u8)) OR ucast (ucast s :: u8) :: u16) n
      = bit s n"
    by cases (auto simp: bit_simps)
qed

lemma be16_join_iff:
  fixes hi lo :: u8 and s :: u16
  shows "(s = push_bit 8 (ucast hi) + ucast lo) \<longleftrightarrow> (hi = ucast (drop_bit 8 s) \<and> lo = ucast s)"
  unfolding join_or
  using be16_split_join [of hi lo] be16_join_split [of s] by auto

lemma be32_of_bytes:
  "be32 (ucast (drop_bit 24 v)) (ucast (drop_bit 16 v)) (ucast (drop_bit 8 v)) (ucast v) = v"
  unfolding be32_def
proof (rule bit_word_eqI)
  fix n assume "n < LENGTH(32)"
  then have n: "n < 32" by simp
  consider "n < 8" | "8 \<le> n" "n < 16" | "16 \<le> n" "n < 24" | "24 \<le> n"
    by linarith
  then show "bit (push_bit 24 (ucast (ucast (drop_bit 24 v) :: u8)) OR
           push_bit 16 (ucast (ucast (drop_bit 16 v) :: u8)) OR
           push_bit 8 (ucast (ucast (drop_bit 8 v) :: u8)) OR ucast (ucast v :: u8) :: u32) n
      = bit v n"
    using n by cases (auto simp: bit_simps)
qed

lemma be32_top_byte: "ucast (drop_bit 24 (be32 b0 b1 b2 b3)) = b0"
  unfolding be32_def
  by (rule bit_word_eqI) (auto simp: bit_simps dest: bit_imp_le_length)

subsection \<open>The checksum\<close>

lemma unat_succ_below:
  fixes i len :: u16
  assumes "uint i < uint len - 2"
  shows "unat (i + 1) = Suc (unat i)"
proof -
  have ui: "uint i = int (unat i)" and ul: "uint len = int (unat len)" by simp_all
  have "uint len < 65536" using uint_bounded [of len] by simp
  with assms ui ul have b: "unat i + 1 < 65536" by linarith
  have "unat (i + 1) = (unat i + unat (1 :: u16)) mod 2 ^ LENGTH(16)"
    by (rule unat_word_ariths(1))
  with b show ?thesis by simp
qed

lemma checksum_loop_sum:
  "unat len \<le> length data \<Longrightarrow> 2 \<le> unat len \<Longrightarrow> unat i \<le> unat len - 2 \<Longrightarrow>
   checksum_loop data len i c =
     Some (c + sum16 (take (unat len - 2 - unat i) (drop (unat i) data)))"
proof (induction data len i c rule: checksum_loop.induct)
  case (1 data len i chksum)
  have ui: "uint i = int (unat i)" and ul: "uint len = int (unat len)" by simp_all
  show ?case
  proof (cases "uint i < uint len - 2")
    case True
    have suc: "unat (i + 1) = Suc (unat i)" using True by (rule unat_succ_below)
    have lt: "unat i < unat len - 2" using True ui ul by linarith
    then have inb: "unat i < length data" using "1.prems" by linarith
    have "take (unat len - 2 - unat i) (drop (unat i) data) =
        data ! unat i # take (unat len - 2 - Suc (unat i)) (drop (Suc (unat i)) data)"
      using lt inb by (metis Cons_nth_drop_Suc Suc_diff_Suc take_Suc_Cons)
    then show ?thesis using True inb lt suc "1.IH" "1.prems"
      by (subst checksum_loop.simps) (simp add: sum16_def)
  next
    case False
    then have "unat i = unat len - 2" using "1.prems" ui ul by linarith
    then show ?thesis using False by (subst checksum_loop.simps) (simp add: sum16_def)
  qed
qed

lemma drop_last_two:
  assumes "2 \<le> length b"
  shows "drop (length b - 2) b = [b ! (length b - 2), b ! (length b - 1)]"
proof -
  have "drop (length b - 2) b = b ! (length b - 2) # drop (Suc (length b - 2)) b"
    using assms by (intro Cons_nth_drop_Suc [symmetric]) linarith
  moreover have "Suc (length b - 2) = length b - 1" using assms by linarith
  moreover have "drop (length b - 1) b = b ! (length b - 1) # drop (Suc (length b - 1)) b"
    using assms by (intro Cons_nth_drop_Suc [symmetric]) linarith
  moreover have "drop (Suc (length b - 1)) b = []" using assms by simp
  ultimately show ?thesis by simp
qed

lemma validate_checksum_eq:
  assumes "length b = unat n" and "2 \<le> unat n"
  shows "validate_checksum b n =
           Some (drop (unat n - 2) b = be16_bytes (sum16 (take (unat n - 2) b)))"
proof -
  have loop: "checksum_loop b n 0 0 = Some (sum16 (take (unat n - 2) b))"
    using checksum_loop_sum [of n b 0 0] assms by simp
  have un: "uint n = int (unat n)" by simp
  have two: "2 \<le> uint n" using assms(2) un by linarith
  have "drop (unat n - 2) b = [b ! (unat n - 2), b ! (unat n - 1)]"
    using drop_last_two [of b] assms by simp
  then show ?thesis
    using loop two assms
      be16_join_iff [of "sum16 (take (unat n - 2) b)" "b ! (unat n - 2)" "b ! (unat n - 1)"]
    by (simp add: validate_checksum_def be16_bytes_def)
qed

text \<open>
  C1. For a buffer \<open>b\<close> of \<open>n \<ge> 2\<close> bytes (the length is an \<open>unsigned short\<close>),
  \<open>validate_checksum\<close> returns, and returns true exactly when the last two bytes of \<open>b\<close>
  are the big-endian encoding of the sum modulo 65536 of the bytes before them.
\<close>

theorem validate_checksum_correct:
  assumes "length b = unat n" and "2 \<le> unat n"
  shows "validate_checksum b n =
           Some (drop (unat n - 2) b = be16_bytes (sum16 (take (unat n - 2) b)))"
  using assms by (rule validate_checksum_eq)

theorem validate_checksum_correct_witness:
  "length [1, 2, 0, 3 :: u8] = unat (4 :: u16) \<and> 2 \<le> unat (4 :: u16)
   \<and> validate_checksum [1, 2, 0, 3] 4 = Some True
   \<and> be16_bytes (sum16 (take (unat (4 :: u16) - 2) [1, 2, 0, 3])) = [0, 3]"
  using validate_checksum_correct [of "[1, 2, 0, 3]" 4]
  by (simp add: be16_bytes_def sum16_def)

subsection \<open>Extraction of 32-bit fields\<close>

lemma extract_int_at:
  "k + 3 < length buf \<Longrightarrow>
   extract_int h buf k =
     Some (load32 h [buf ! (k + 3), buf ! (k + 2), buf ! (k + 1), buf ! k])"
  by (simp add: extract_int_def Let_def numeral_eq_Suc)

lemma extract_float_at:
  "k + 3 < length buf \<Longrightarrow>
   extract_float h buf k =
     Some (load32 h [buf ! (k + 3), buf ! (k + 2), buf ! (k + 1), buf ! k])"
  by (simp add: extract_float_def Let_def numeral_eq_Suc)

text \<open>
  C2, as amended. On a little-endian host, \<open>extract_int\<close> and \<open>extract_float\<close> read byte 0
  of a four-byte input as the most significant byte of the 32-bit representation, and
  decoding the four big-endian bytes of any 32-bit representation (of an \<open>int\<close> or of a
  \<open>float\<close>) gives that representation back.
\<close>

theorem extract_on_little_endian_host:
  "extract_int LittleEndian [b0, b1, b2, b3] 0 = Some (be32 b0 b1 b2 b3)
   \<and> extract_float LittleEndian [b0, b1, b2, b3] 0 = Some (be32 b0 b1 b2 b3)
   \<and> ucast (drop_bit 24 (be32 b0 b1 b2 b3)) = b0
   \<and> extract_int LittleEndian (be32_bytes v) 0 = Some v
   \<and> extract_float LittleEndian (be32_bytes v) 0 = Some v"
  by (simp add: extract_int_at extract_float_at load32_def be32_bytes_def be32_of_bytes
      be32_top_byte)

text \<open>
  On a big-endian host the same code reads byte 0 as the least significant byte: the
  big-endian bytes \<open>00 00 00 01\<close> of the value 1 are decoded as \<open>0x01000000\<close>.
\<close>

theorem extract_on_big_endian_host:
  "be32_bytes 1 = [0, 0, 0, 1]
   \<and> extract_int BigEndian [0, 0, 0, 1] 0 = Some 0x01000000
   \<and> extract_int BigEndian (be32_bytes 1) 0 \<noteq> Some 1
   \<and> extract_float BigEndian (be32_bytes 1) 0 \<noteq> Some 1"
  by (simp add: extract_int_at extract_float_at load32_def be32_bytes_def be32_def)

subsection \<open>Decoding a frame\<close>

lemma extract_float_field:
  "k + 3 < length data \<Longrightarrow> extract_float h data k = Some (field32 h data k)"
  by (simp add: extract_float_at field32_def)

lemma extract_int_field:
  "k + 3 < length data \<Longrightarrow> extract_int h data k = Some (field32 h data k)"
  by (simp add: extract_int_at field32_def)

lemma extract_floats_at:
  "k + 4 * n \<le> length data \<Longrightarrow>
   extract_floats h data k n = Some (map (\<lambda>i. field32 h data (k + 4 * i)) [0..<n], k + 4 * n)"
proof (induction n arbitrary: k)
  case 0
  then show ?case by simp
next
  case (Suc n)
  have "[0..<Suc n] = 0 # map Suc [0..<n]"
    by (simp add: upt_conv_Cons map_Suc_upt del: upt_Suc)
  moreover have "extract_floats h data (k + 4) n =
      Some (map (\<lambda>i. field32 h data (k + 4 + 4 * i)) [0..<n], k + 4 + 4 * n)"
    using Suc.prems by (intro Suc.IH) simp
  moreover have "extract_float h data k = Some (field32 h data k)"
    using Suc.prems by (intro extract_float_field) simp
  ultimately show ?case
    by (simp add: comp_def add.assoc del: upt_Suc)
qed

lemma upt_3: "[0..<3] = [0, 1, 2]"
  by (simp add: upt_rec)

lemma decode_fields_at:
  assumes "length data = 79"
  shows "decode_fields h data =
     Some \<lparr>accel = map (field32 h data) [1, 5, 9],
           ang_vel = map (field32 h data) [13, 17, 21],
           mag = map (field32 h data) [25, 29, 33],
           M = map (field32 h data) [37, 41, 45, 49, 53, 57, 61, 65, 69],
           timer = field32 h data 73\<rparr>"
proof -
  have nine: "[0..<9] = [0, 1, 2, 3, 4, 5, 6, 7, 8]"
    by (simp add: upt_rec)
  have a: "extract_floats h data 1 3 = Some (map (field32 h data) [1, 5, 9], 13)"
    using extract_floats_at [of 1 3 data h] assms by (simp add: upt_3)
  have b: "extract_floats h data 13 3 = Some (map (field32 h data) [13, 17, 21], 25)"
    using extract_floats_at [of 13 3 data h] assms by (simp add: upt_3)
  have c: "extract_floats h data 25 3 = Some (map (field32 h data) [25, 29, 33], 37)"
    using extract_floats_at [of 25 3 data h] assms by (simp add: upt_3)
  have d: "extract_floats h data 37 9 =
      Some (map (field32 h data) [37, 41, 45, 49, 53, 57, 61, 65, 69], 73)"
    using extract_floats_at [of 37 9 data h] assms by (simp add: nine)
  have e: "extract_int h data 73 = Some (field32 h data 73)"
    using assms by (intro extract_int_field) simp
  show ?thesis
    unfolding decode_fields_def Let_def by (simp only: a b c d e option.case prod.case)
qed

lemma rotation_entries:
  "rotation P Mv =
     [[double_of_float P (Mv ! 0), double_of_float P (Mv ! 3), double_of_float P (Mv ! 6)],
      [double_of_float P (Mv ! 1), double_of_float P (Mv ! 4), double_of_float P (Mv ! 7)],
      [double_of_float P (Mv ! 2), double_of_float P (Mv ! 5), double_of_float P (Mv ! 8)]]"
  by (simp add: rotation_def upt_3)

lemma field32_little_endian:
  "field32 LittleEndian data k =
     be32 (data ! k) (data ! (k + 1)) (data ! (k + 2)) (data ! (k + 3))"
  by (simp add: field32_def load32_def)

lemma process_frame_at:
  assumes "length data = unat DATA_LENGTH"
  shows "\<exists>L' imu magm.
      process_frame P L data = Some (L', [PublishImu imu, PublishMag magm])
    \<and> loc_t0 L' = loc_t0 L \<and> loc_delay L' = loc_delay L \<and> loc_frame_id L' = loc_frame_id L
    \<and> imu_msg L' = imu \<and> mag_msg L' = magm
    \<and> stamp (header imu) =
        time_minus P (time_plus P (loc_t0 L)
          (Duration P (double_div P (double_of_int P (sint (field32 (host_order P) data 73)))
             (double_of_rat P 62500))))
          (Duration P (loc_delay L))
    \<and> stamp (header magm) = stamp (header imu)
    \<and> frame_id (header imu) = loc_frame_id L \<and> frame_id (header magm) = loc_frame_id L
    \<and> angular_velocity imu =
        Vector3 (double_of_float P (field32 (host_order P) data 13))
                (double_of_float P (field32 (host_order P) data 17))
                (double_of_float P (field32 (host_order P) data 21))
    \<and> linear_acceleration imu =
        Vector3 (double_mult P (double_of_float P (field32 (host_order P) data 1))
                   (double_of_rat P GRAVITY_CONSTANT))
                (double_mult P (double_of_float P (field32 (host_order P) data 5))
                   (double_of_rat P GRAVITY_CONSTANT))
                (double_mult P (double_of_float P (field32 (host_order P) data 9))
                   (double_of_rat P GRAVITY_CONSTANT))
    \<and> magnetic_field magm =
        Vector3 (double_of_float P (field32 (host_order P) data 25))
                (double_of_float P (field32 (host_order P) data 29))
                (double_of_float P (field32 (host_order P) data 33))
    \<and> orientation imu =
        quaternion_of_matrix P
          (rotation P (map (field32 (host_order P) data) [37, 41, 45, 49, 53, 57, 61, 65, 69]))
    \<and> orientation_covariance imu =
        (orientation_covariance (imu_msg L))[0 := double_of_int P (- 1)]"
proof -
  have "length data = 79" using assms by (simp add: DATA_LENGTH_def)
  then show ?thesis
    by (simp add: process_frame_def decode_fields_at Let_def)
qed

subsection \<open>The sample frame\<close>

lemma sample_frame_length: "length sample_frame = unat DATA_LENGTH"
  by (simp add: sample_frame_def DATA_LENGTH_def)

lemma bad_frame_length: "length bad_frame = unat DATA_LENGTH"
  by (simp add: bad_frame_def sample_frame_def DATA_LENGTH_def)

lemma sample_frame_valid: "validate_checksum sample_frame DATA_LENGTH = Some True"
  using validate_checksum_eq [of sample_frame DATA_LENGTH]
  by (simp add: sample_frame_def DATA_LENGTH_def be16_bytes_def sum16_def)

lemma bad_frame_invalid: "validate_checksum bad_frame DATA_LENGTH = Some False"
  using validate_checksum_eq [of bad_frame DATA_LENGTH]
  by (simp add: bad_frame_def sample_frame_def DATA_LENGTH_def be16_bytes_def sum16_def)

lemma sample_fields:
  "field32 LittleEndian sample_frame 1 = 0"
  "field32 LittleEndian sample_frame (Suc 0) = 0"
  "field32 LittleEndian sample_frame 5 = 0"
  "field32 LittleEndian sample_frame 9 = 0x3F800000"
  "field32 LittleEndian sample_frame 13 = 0x40000000"
  "field32 LittleEndian sample_frame 17 = 0"
  "field32 LittleEndian sample_frame 21 = 0"
  "field32 LittleEndian sample_frame 25 = 0"
  "field32 LittleEndian sample_frame 29 = 0x3F000000"
  "field32 LittleEndian sample_frame 33 = 0"
  "field32 LittleEndian sample_frame 37 = 0x3F800000"
  "field32 LittleEndian sample_frame 41 = 0"
  "field32 LittleEndian sample_frame 45 = 0"
  "field32 LittleEndian sample_frame 49 = 0"
  "field32 LittleEndian sample_frame 53 = 0x3F800000"
  "field32 LittleEndian sample_frame 57 = 0"
  "field32 LittleEndian sample_frame 61 = 0"
  "field32 LittleEndian sample_frame 65 = 0"
  "field32 LittleEndian sample_frame 69 = 0x3F800000"
  "field32 LittleEndian sample_frame 73 = 62500"
  by (simp_all add: field32_def load32_def be32_def sample_frame_def)

lemma float_value_simps:
  "float_value 0 = 0"
  "float_value 0x3F800000 = 1"
  "float_value 0x40000000 = 2"
  "float_value 0x3F000000 = 1 / 2"
  by (simp_all add: float_value_def Let_def)

subsection \<open>One pass of the streaming loop\<close>

lemma stream_loop_read:
  assumes "ok_script w (polls w)" and "is_open w" and "rx w = data @ rest"
    and "length data = unat DATA_LENGTH"
  shows "stream_loop P L w =
     (case validate_checksum data DATA_LENGTH of
        None \<Rightarrow> Inl (Undefined, w\<lparr>polls := Suc (polls w), rx := rest\<rparr>)
      | Some False \<Rightarrow>
          stream_loop P L (w\<lparr>polls := Suc (polls w), rx := rest,
             trace := trace w @ [Log ERROR ''%s: checksum failed on message'']\<rparr>)
      | Some True \<Rightarrow>
          (case process_frame P L data of
             None \<Rightarrow> Inl (Undefined, w\<lparr>polls := Suc (polls w), rx := rest\<rparr>)
           | Some (L', evs) \<Rightarrow>
               stream_loop P L' (w\<lparr>polls := Suc (polls w), rx := rest,
                  trace := trace w @ evs\<rparr>)))"
proof -
  have rd: "serial_read (unat DATA_LENGTH) (w\<lparr>polls := Suc (polls w)\<rparr>) =
      Inr (data, w\<lparr>polls := Suc (polls w), rx := rest\<rparr>)"
    using assms by (simp add: serial_read_def)
  have st: "store_into (replicate (unat DATA_LENGTH) 0) data = data"
    using assms by (simp add: store_into_def)
  show ?thesis
    apply (subst stream_loop.simps)
    apply (simp only: rd st assms(1) not_True_eq_False if_False sum.case prod.case Let_def)
    apply (simp add: emit_def split: option.split bool.split)
    done
qed

lemma stream_loop_stop:
  "\<not> ok_script w (polls w) \<Longrightarrow> stream_loop P L w = Inr (w\<lparr>polls := Suc (polls w)\<rparr>)"
  by (subst stream_loop.simps) simp

text \<open>
  C3, as amended. On a little-endian host, a frame of 79 bytes is decoded field by field
  from offset 1 as consecutive big-endian fields: three acceleration floats (offsets 1, 5,
  9), three angular-rate floats (13, 17, 21), three magnetic-field floats (25, 29, 33),
  nine matrix floats (37 to 69) and the timer count (73). On any host the fields are the
  values \<open>extract_float\<close> and \<open>extract_int\<close> read at these offsets, in this order. The
  matrix handed to the quaternion conversion has the flattened element \<open>j * 3 + i\<close> in
  row \<open>i\<close>, column \<open>j\<close>, and the published orientation is the conversion of that matrix.
\<close>

theorem continuous_frame_layout:
  assumes "length data = unat DATA_LENGTH"
  shows "decode_fields LittleEndian data =
       Some \<lparr>accel = map (be_field data) [1, 5, 9],
             ang_vel = map (be_field data) [13, 17, 21],
             mag = map (be_field data) [25, 29, 33],
             M = map (be_field data) [37, 41, 45, 49, 53, 57, 61, 65, 69],
             timer = be_field data 73\<rparr>
   \<and> decode_fields h data =
       Some \<lparr>accel = map (field32 h data) [1, 5, 9],
             ang_vel = map (field32 h data) [13, 17, 21],
             mag = map (field32 h data) [25, 29, 33],
             M = map (field32 h data) [37, 41, 45, 49, 53, 57, 61, 65, 69],
             timer = field32 h data 73\<rparr>
   \<and> field32 LittleEndian data k =
       be32 (data ! k) (data ! (k + 1)) (data ! (k + 2)) (data ! (k + 3))
   \<and> rotation P Mv =
       [[double_of_float P (Mv ! 0), double_of_float P (Mv ! 3), double_of_float P (Mv ! 6)],
        [double_of_float P (Mv ! 1), double_of_float P (Mv ! 4), double_of_float P (Mv ! 7)],
        [double_of_float P (Mv ! 2), double_of_float P (Mv ! 5), double_of_float P (Mv ! 8)]]
   \<and> (\<exists>L' imu magm.
         process_frame P L data = Some (L', [PublishImu imu, PublishMag magm])
       \<and> orientation imu =
           quaternion_of_matrix P
             (rotation P
                (map (field32 (host_order P) data) [37, 41, 45, 49, 53, 57, 61, 65, 69])))
   \<and> (host_order P = LittleEndian \<longrightarrow>
        (\<exists>L' imu magm.
           process_frame P L data = Some (L', [PublishImu imu, PublishMag magm])
         \<and> orientation imu =
             quaternion_of_matrix P
               (rotation P (map (be_field data) [37, 41, 45, 49, 53, 57, 61, 65, 69]))))"
proof -
  have len: "length data = 79" using assms by (simp add: DATA_LENGTH_def)
  have be: "\<And>n. field32 LittleEndian data n = be_field data n"
    by (simp add: field32_little_endian be_field_def)
  have any: "decode_fields h data =
       Some \<lparr>accel = map (field32 h data) [1, 5, 9],
             ang_vel = map (field32 h data) [13, 17, 21],
             mag = map (field32 h data) [25, 29, 33],
             M = map (field32 h data) [37, 41, 45, 49, 53, 57, 61, 65, 69],
             timer = field32 h data 73\<rparr>" for h
    using len by (rule decode_fields_at)
  have little: "decode_fields LittleEndian data =
       Some \<lparr>accel = map (be_field data) [1, 5, 9],
             ang_vel = map (be_field data) [13, 17, 21],
             mag = map (be_field data) [25, 29, 33],
             M = map (be_field data) [37, 41, 45, 49, 53, 57, 61, 65, 69],
             timer = be_field data 73\<rparr>"
    using any [of LittleEndian] by (simp add: be)
  obtain L' imu magm where pf:
    "process_frame P L data = Some (L', [PublishImu imu, PublishMag magm])"
    "orientation imu =
       quaternion_of_matrix P
         (rotation P (map (field32 (host_order P) data) [37, 41, 45, 49, 53, 57, 61, 65, 69]))"
    using process_frame_at [OF assms, of P L] by blast
  have published: "\<exists>L' imu magm.
         process_frame P L data = Some (L', [PublishImu imu, PublishMag magm])
       \<and> orientation imu =
           quaternion_of_matrix P
             (rotation P
                (map (field32 (host_order P) data) [37, 41, 45, 49, 53, 57, 61, 65, 69]))"
    using pf by blast
  have published_le: "host_order P = LittleEndian \<longrightarrow>
        (\<exists>L' imu magm.
           process_frame P L data = Some (L', [PublishImu imu, PublishMag magm])
         \<and> orientation imu =
             quaternion_of_matrix P
               (rotation P (map (be_field data) [37, 41, 45, 49, 53, 57, 61, 65, 69])))"
  proof
    assume "host_order P = LittleEndian"
    then have "orientation imu =
        quaternion_of_matrix P
          (rotation P (map (be_field data) [37, 41, 45, 49, 53, 57, 61, 65, 69]))"
      using pf(2) by (simp add: be)
    then show "\<exists>L' imu magm.
           process_frame P L data = Some (L', [PublishImu imu, PublishMag magm])
         \<and> orientation imu =
             quaternion_of_matrix P
               (rotation P (map (be_field data) [37, 41, 45, 49, 53, 57, 61, 65, 69]))"
      using pf(1) by blast
  qed
  from little any [of h] field32_little_endian [of data k] rotation_entries [of P Mv]
    published published_le
  show ?thesis by (intro conjI)
qed

theorem continuous_frame_layout_witness:
  "length sample_frame = unat DATA_LENGTH
   \<and> host_order (exact_platform LittleEndian) = LittleEndian
   \<and> decode_fields LittleEndian sample_frame =
       Some \<lparr>accel = [0, 0, 0x3F800000],
             ang_vel = [0x40000000, 0, 0],
             mag = [0, 0x3F000000, 0],
             M = [0x3F800000, 0, 0, 0, 0x3F800000, 0, 0, 0, 0x3F800000],
             timer = 62500\<rparr>
   \<and> map (be_field sample_frame) [1, 5, 9] = [0, 0, 0x3F800000]
   \<and> be_field sample_frame 73 = 62500
   \<and> rotation (exact_platform LittleEndian) [1, 2, 3, 4, 5, 6, 7, 8, 9] =
       [[float_value 1, float_value 4, float_value 7],
        [float_value 2, float_value 5, float_value 8],
        [float_value 3, float_value 6, float_value 9]]
   \<and> (\<exists>L' imu magm.
         process_frame (exact_platform LittleEndian) example_locals sample_frame =
           Some (L', [PublishImu imu, PublishMag magm])
       \<and> orientation imu = Quaternion 1 0 0 0)"
proof -
  have be: "\<And>n. be_field sample_frame n = field32 LittleEndian sample_frame n"
    by (simp add: field32_little_endian be_field_def)
  show ?thesis
    using continuous_frame_layout [OF sample_frame_length,
        of LittleEndian 0 "exact_platform LittleEndian" "[1, 2, 3, 4, 5, 6, 7, 8, 9]" example_locals]
    by (simp add: sample_frame_length be sample_fields exact_platform_def float_value_simps
        rotation_entries rotation_to_quaternion_def Let_def)
qed

text \<open>
  C3 as it was stated fails on a big-endian host. The sample frame is 79 bytes long with
  a right checksum; read as big-endian fields, its third acceleration float is
  \<open>0x3F800000\<close> and its timer count is 62500. On a big-endian host the decoder returns
  the four bytes of each field in the opposite order: \<open>0x0000803F\<close> and \<open>0x24F40000\<close>.
\<close>

theorem big_endian_host_layout:
  "length sample_frame = unat DATA_LENGTH
   \<and> validate_checksum sample_frame DATA_LENGTH = Some True
   \<and> map (be_field sample_frame) [1, 5, 9] = [0, 0, 0x3F800000]
   \<and> be_field sample_frame 73 = 62500
   \<and> map_option accel (decode_fields BigEndian sample_frame) = Some [0, 0, 0x0000803F]
   \<and> map_option timer (decode_fields BigEndian sample_frame) = Some 0x24F40000
   \<and> map_option timer (decode_fields BigEndian sample_frame) \<noteq> Some (be_field sample_frame 73)"
proof -
  have "length sample_frame = 79"
    by (simp add: sample_frame_def)
  then have "decode_fields BigEndian sample_frame =
       Some \<lparr>accel = map (field32 BigEndian sample_frame) [1, 5, 9],
             ang_vel = map (field32 BigEndian sample_frame) [13, 17, 21],
             mag = map (field32 BigEndian sample_frame) [25, 29, 33],
             M = map (field32 BigEndian sample_frame) [37, 41, 45, 49, 53, 57, 61, 65, 69],
             timer = field32 BigEndian sample_frame 73\<rparr>"
    by (rule decode_fields_at)
  moreover have "field32 BigEndian sample_frame 1 = 0" "field32 BigEndian sample_frame 5 = 0"
    "field32 BigEndian sample_frame 9 = 0x0000803F" "field32 BigEndian sample_frame 73 = 0x24F40000"
    by (simp_all add: field32_def load32_def be32_def sample_frame_def)
  moreover have "be_field sample_frame 1 = 0" "be_field sample_frame 5 = 0"
    "be_field sample_frame 9 = 0x3F800000" "be_field sample_frame 73 = 62500"
    by (simp_all add: be_field_def be32_def sample_frame_def)
  ultimately show ?thesis
    using sample_frame_length sample_frame_valid by simp
qed

text \<open>
  C5. When a pass of the loop reads a frame that fails the checksum, the frame is dropped:
  the only event of the pass is the error message, no message is published, the
  variables of \<open>main\<close> (\<open>t0\<close> and \<open>delay\<close> among them) are what they were, and the run is
  the run of the loop from the next pass on.
\<close>

theorem bad_frame_dropped:
  assumes "ok_script w (polls w)" and "is_open w" and "rx w = data @ rest"
    and "length data = unat DATA_LENGTH"
    and "validate_checksum data DATA_LENGTH = Some False"
  shows "stream_loop P L w =
     stream_loop P L (w\<lparr>polls := Suc (polls w), rx := rest,
        trace := trace w @ [Log ERROR ''%s: checksum failed on message'']\<rparr>)"
  using stream_loop_read [OF assms(1-4), of P L] assms(5) by simp

theorem bad_frame_dropped_witness:
  "ok_script (streaming_world (bad_frame @ sample_frame) 2)
     (polls (streaming_world (bad_frame @ sample_frame) 2))
   \<and> is_open (streaming_world (bad_frame @ sample_frame) 2)
   \<and> length bad_frame = unat DATA_LENGTH
   \<and> validate_checksum bad_frame DATA_LENGTH = Some False
   \<and> stream_loop (exact_platform LittleEndian) example_locals
         (streaming_world (bad_frame @ sample_frame) 2) =
       stream_loop (exact_platform LittleEndian) example_locals
         ((streaming_world (bad_frame @ sample_frame) 2)\<lparr>polls := 1, rx := sample_frame,
            trace := [Log ERROR ''%s: checksum failed on message'']\<rparr>)
   \<and> (\<exists>imu magm.
         stream_loop (exact_platform LittleEndian) example_locals
           (streaming_world (bad_frame @ sample_frame) 2) =
         Inr ((streaming_world (bad_frame @ sample_frame) 2)\<lparr>polls := 3, rx := [],
                trace := [Log ERROR ''%s: checksum failed on message'',
                          PublishImu imu, PublishMag magm]\<rparr>))"
proof -
  let ?P = "exact_platform LittleEndian"
  let ?w = "streaming_world (bad_frame @ sample_frame) 2"
  let ?w1 = "?w\<lparr>polls := Suc (polls ?w), rx := sample_frame,
      trace := trace ?w @ [Log ERROR ''%s: checksum failed on message'']\<rparr>"
  have h1: "ok_script ?w (polls ?w)" and h2: "is_open ?w"
    and h3: "rx ?w = bad_frame @ sample_frame"
    by (simp_all add: streaming_world_def)
  have first: "stream_loop ?P example_locals ?w = stream_loop ?P example_locals ?w1"
    using bad_frame_dropped [OF h1 h2 h3 bad_frame_length bad_frame_invalid,
        of ?P example_locals] .
  obtain L' imu magm where
    pf: "process_frame ?P example_locals sample_frame = Some (L', [PublishImu imu, PublishMag magm])"
    using process_frame_at [OF sample_frame_length, of ?P example_locals] by blast
  let ?w2 = "?w1\<lparr>polls := Suc (polls ?w1), rx := [],
      trace := trace ?w1 @ [PublishImu imu, PublishMag magm]\<rparr>"
  have "stream_loop ?P example_locals ?w1 = stream_loop ?P L' ?w2"
    using stream_loop_read [of ?w1 sample_frame "[]" ?P example_locals] sample_frame_length
      sample_frame_valid pf
    by (simp add: streaming_world_def)
  moreover have "stream_loop ?P L' ?w2 = Inr (?w2\<lparr>polls := Suc (polls ?w2)\<rparr>)"
    by (rule stream_loop_stop) (simp add: streaming_world_def)
  ultimately have "stream_loop ?P example_locals ?w =
      Inr (?w\<lparr>polls := 3, rx := [],
             trace := [Log ERROR ''%s: checksum failed on message'',
                       PublishImu imu, PublishMag magm]\<rparr>)"
    using first by (simp add: streaming_world_def)
  then have next_pass: "\<exists>imu magm. stream_loop ?P example_locals ?w =
      Inr (?w\<lparr>polls := 3, rx := [],
             trace := [Log ERROR ''%s: checksum failed on message'',
                       PublishImu imu, PublishMag magm]\<rparr>)"
    by blast
  have dropped: "stream_loop ?P example_locals ?w =
      stream_loop ?P example_locals
        (?w\<lparr>polls := 1, rx := sample_frame,
            trace := [Log ERROR ''%s: checksum failed on message'']\<rparr>)"
    using first by (simp add: streaming_world_def)
  from h1 h2 bad_frame_length bad_frame_invalid dropped next_pass
  show ?thesis by (intro conjI)
qed

text \<open>
  C9. For a frame of 79 bytes, the published angular velocity and magnetic field are the
  decoded floats themselves, widened from \<open>float\<close> to \<open>double\<close> by the assignment and
  nothing else; only the linear acceleration is multiplied by \<open>GRAVITY_CONSTANT\<close>.
\<close>

theorem rates_and_field_unscaled:
  assumes "length data = unat DATA_LENGTH"
  shows "\<exists>L' imu magm.
      process_frame P L data = Some (L', [PublishImu imu, PublishMag magm])
    \<and> angular_velocity imu =
        Vector3 (double_of_float P (field32 (host_order P) data 13))
                (double_of_float P (field32 (host_order P) data 17))
                (double_of_float P (field32 (host_order P) data 21))
    \<and> magnetic_field magm =
        Vector3 (double_of_float P (field32 (host_order P) data 25))
                (double_of_float P (field32 (host_order P) data 29))
                (double_of_float P (field32 (host_order P) data 33))
    \<and> linear_acceleration imu =
        Vector3 (double_mult P (double_of_float P (field32 (host_order P) data 1))
                   (double_of_rat P GRAVITY_CONSTANT))
                (double_mult P (double_of_float P (field32 (host_order P) data 5))
                   (double_of_rat P GRAVITY_CONSTANT))
                (double_mult P (double_of_float P (field32 (host_order P) data 9))
                   (double_of_rat P GRAVITY_CONSTANT))"
  using process_frame_at [OF assms, of P L] by blast

theorem rates_and_field_unscaled_witness:
  "length sample_frame = unat DATA_LENGTH
   \<and> (\<exists>L' imu magm.
        process_frame (exact_platform LittleEndian) example_locals sample_frame =
          Some (L', [PublishImu imu, PublishMag magm])
      \<and> angular_velocity imu = Vector3 2 0 0
      \<and> magnetic_field magm = Vector3 0 (1 / 2) 0
      \<and> linear_acceleration imu = Vector3 0 0 (9807 / 1000))"
  using rates_and_field_unscaled [OF sample_frame_length,
      of "exact_platform LittleEndian" example_locals]
  by (simp add: sample_frame_length exact_platform_def sample_fields float_value_simps
      GRAVITY_CONSTANT_def of_rat_divide)

subsection \<open>The quaternion conversion\<close>

lemma three_squares_zero:
  fixes x y z :: real
  assumes "x\<^sup>2 + y\<^sup>2 + z\<^sup>2 = 0"
  shows "x = 0 \<and> y = 0 \<and> z = 0"
proof -
  have "x\<^sup>2 = 0 \<and> y\<^sup>2 = 0 \<and> z\<^sup>2 = 0"
    using assms zero_le_power2 [of x] zero_le_power2 [of y] zero_le_power2 [of z] by linarith
  then show ?thesis by simp
qed

lemma cross_row:
  fixes a0 a1 a2 b0 b1 b2 c0 c1 c2 :: real
  assumes aa: "a0 * a0 + a1 * a1 + a2 * a2 = 1"
    and bb: "b0 * b0 + b1 * b1 + b2 * b2 = 1"
    and cc: "c0 * c0 + c1 * c1 + c2 * c2 = 1"
    and bc: "b0 * c0 + b1 * c1 + b2 * c2 = 0"
    and det: "a0 * (b1 * c2 - b2 * c1) - a1 * (b0 * c2 - b2 * c0) + a2 * (b0 * c1 - b1 * c0) = 1"
  shows "a0 = b1 * c2 - b2 * c1" and "a1 = b2 * c0 - b0 * c2" and "a2 = b0 * c1 - b1 * c0"
proof -
  let ?x = "b1 * c2 - b2 * c1" and ?y = "b2 * c0 - b0 * c2" and ?z = "b0 * c1 - b1 * c0"
  have lagrange: "?x * ?x + ?y * ?y + ?z * ?z =
      (b0 * b0 + b1 * b1 + b2 * b2) * (c0 * c0 + c1 * c1 + c2 * c2)
      - (b0 * c0 + b1 * c1 + b2 * c2) * (b0 * c0 + b1 * c1 + b2 * c2)"
    by (simp add: algebra_simps)
  then have n: "?x * ?x + ?y * ?y + ?z * ?z = 1"
    by (simp add: bb cc bc)
  have d: "a0 * ?x + a1 * ?y + a2 * ?z = 1"
    using det by (simp add: algebra_simps)
  have "(a0 - ?x)\<^sup>2 + (a1 - ?y)\<^sup>2 + (a2 - ?z)\<^sup>2 =
      (a0 * a0 + a1 * a1 + a2 * a2) - 2 * (a0 * ?x + a1 * ?y + a2 * ?z)
      + (?x * ?x + ?y * ?y + ?z * ?z)"
    by (simp add: power2_eq_square algebra_simps)
  then have "(a0 - ?x)\<^sup>2 + (a1 - ?y)\<^sup>2 + (a2 - ?z)\<^sup>2 = 0"
    by (simp add: aa d n)
  then have "a0 - ?x = 0 \<and> a1 - ?y = 0 \<and> a2 - ?z = 0"
    by (rule three_squares_zero)
  then show "a0 = ?x" and "a1 = ?y" and "a2 = ?z" by simp_all
qed

lemma unit_from_parts:
  fixes D A B C :: real
  assumes "0 < D" and "D * D + A * A + B * B + C * C = 4 * D"
  shows "(sqrt D / 2)\<^sup>2 + (A * ((1 / 2) / sqrt D))\<^sup>2 + (B * ((1 / 2) / sqrt D))\<^sup>2
      + (C * ((1 / 2) / sqrt D))\<^sup>2 = 1"
proof -
  have r: "(sqrt D)\<^sup>2 = D" using assms(1) by simp
  have "(sqrt D / 2)\<^sup>2 + (A * ((1 / 2) / sqrt D))\<^sup>2 + (B * ((1 / 2) / sqrt D))\<^sup>2
      + (C * ((1 / 2) / sqrt D))\<^sup>2 = ((sqrt D)\<^sup>2 * (sqrt D)\<^sup>2 + A * A + B * B + C * C) / (4 * (sqrt D)\<^sup>2)"
    using assms(1) by (simp add: power2_eq_square field_simps)
  also have "\<dots> = (D * D + A * A + B * B + C * C) / (4 * D)"
    by (simp only: r)
  also have "\<dots> = 1"
    using assms by simp
  finally show ?thesis .
qed


lemma rotation_parts:
  fixes a0 a1 a2 b0 b1 b2 c0 c1 c2 :: real
  assumes aa: "a0 * a0 + a1 * a1 + a2 * a2 = 1"
    and bb: "b0 * b0 + b1 * b1 + b2 * b2 = 1"
    and cc: "c0 * c0 + c1 * c1 + c2 * c2 = 1"
    and ab: "a0 * b0 + a1 * b1 + a2 * b2 = 0"
    and ac: "a0 * c0 + a1 * c1 + a2 * c2 = 0"
    and bc: "b0 * c0 + b1 * c1 + b2 * c2 = 0"
    and det: "a0 * (b1 * c2 - b2 * c1) - a1 * (b0 * c2 - b2 * c0) + a2 * (b0 * c1 - b1 * c0) = 1"
  shows "(a0 + b1 + c2 + 1) * (a0 + b1 + c2 + 1) + (c1 - b2) * (c1 - b2)
           + (a2 - c0) * (a2 - c0) + (b0 - a1) * (b0 - a1) = 4 * (a0 + b1 + c2 + 1)"
    and "(a0 - b1 - c2 + 1) * (a0 - b1 - c2 + 1) + (c1 - b2) * (c1 - b2)
           + (b0 + a1) * (b0 + a1) + (c0 + a2) * (c0 + a2) = 4 * (a0 - b1 - c2 + 1)"
    and "(b1 - c2 - a0 + 1) * (b1 - c2 - a0 + 1) + (a2 - c0) * (a2 - c0)
           + (c1 + b2) * (c1 + b2) + (a1 + b0) * (a1 + b0) = 4 * (b1 - c2 - a0 + 1)"
    and "(c2 - a0 - b1 + 1) * (c2 - a0 - b1 + 1) + (b0 - a1) * (b0 - a1)
           + (a2 + c0) * (a2 + c0) + (b2 + c1) * (b2 + c1) = 4 * (c2 - a0 - b1 + 1)"
proof -
  have ca: "c0 * a0 + c1 * a1 + c2 * a2 = 0"
    using ac by (simp add: mult.commute)
  have det_b: "b0 * (c1 * a2 - c2 * a1) - b1 * (c0 * a2 - c2 * a0) + b2 * (c0 * a1 - c1 * a0) = 1"
    using det by (simp add: algebra_simps)
  have det_c: "c0 * (a1 * b2 - a2 * b1) - c1 * (a0 * b2 - a2 * b0) + c2 * (a0 * b1 - a1 * b0) = 1"
    using det by (simp add: algebra_simps)
  have C0: "a0 = b1 * c2 - b2 * c1"
    by (rule cross_row(1) [OF aa bb cc bc det])
  have C1: "b1 = c2 * a0 - c0 * a2"
    by (rule cross_row(2) [OF bb cc aa ca det_b])
  have C2: "c2 = a0 * b1 - a1 * b0"
    by (rule cross_row(3) [OF cc aa bb ab det_c])
  have F: "a0 * a0 + a1 * a1 + a2 * a2 + b0 * b0 + b1 * b1 + b2 * b2 + c0 * c0 + c1 * c1 + c2 * c2 = 3"
    using aa bb cc by linarith
  have P0: "b2 * c1 = b1 * c2 - a0" using C0 by linarith
  have P1: "c0 * a2 = c2 * a0 - b1" using C1 by linarith
  have P2: "a1 * b0 = a0 * b1 - c2" using C2 by linarith
  show "(a0 + b1 + c2 + 1) * (a0 + b1 + c2 + 1) + (c1 - b2) * (c1 - b2)
           + (a2 - c0) * (a2 - c0) + (b0 - a1) * (b0 - a1) = 4 * (a0 + b1 + c2 + 1)"
  proof -
    have "(a0 + b1 + c2 + 1) * (a0 + b1 + c2 + 1) + (c1 - b2) * (c1 - b2)
           + (a2 - c0) * (a2 - c0) + (b0 - a1) * (b0 - a1) - 4 * (a0 + b1 + c2 + 1)
        = (a0 * a0 + a1 * a1 + a2 * a2 + b0 * b0 + b1 * b1 + b2 * b2 + c0 * c0 + c1 * c1 + c2 * c2 - 3)
          + 2 * ((b1 * c2 - a0) - b2 * c1) + 2 * ((c2 * a0 - b1) - c0 * a2)
          + 2 * ((a0 * b1 - c2) - a1 * b0)"
      by (simp add: algebra_simps)
    also have "\<dots> = 0"
      by (simp only: F P0 P1 P2) simp
    finally show ?thesis by simp
  qed
  show "(a0 - b1 - c2 + 1) * (a0 - b1 - c2 + 1) + (c1 - b2) * (c1 - b2)
           + (b0 + a1) * (b0 + a1) + (c0 + a2) * (c0 + a2) = 4 * (a0 - b1 - c2 + 1)"
  proof -
    have "(a0 - b1 - c2 + 1) * (a0 - b1 - c2 + 1) + (c1 - b2) * (c1 - b2)
           + (b0 + a1) * (b0 + a1) + (c0 + a2) * (c0 + a2) - 4 * (a0 - b1 - c2 + 1)
        = (a0 * a0 + a1 * a1 + a2 * a2 + b0 * b0 + b1 * b1 + b2 * b2 + c0 * c0 + c1 * c1 + c2 * c2 - 3)
          + 2 * ((b1 * c2 - a0) - b2 * c1) - 2 * ((c2 * a0 - b1) - c0 * a2)
          - 2 * ((a0 * b1 - c2) - a1 * b0)"
      by (simp add: algebra_simps)
    also have "\<dots> = 0"
      by (simp only: F P0 P1 P2) simp
    finally show ?thesis by simp
  qed
  show "(b1 - c2 - a0 + 1) * (b1 - c2 - a0 + 1) + (a2 - c0) * (a2 - c0)
           + (c1 + b2) * (c1 + b2) + (a1 + b0) * (a1 + b0) = 4 * (b1 - c2 - a0 + 1)"
  proof -
    have "(b1 - c2 - a0 + 1) * (b1 - c2 - a0 + 1) + (a2 - c0) * (a2 - c0)
           + (c1 + b2) * (c1 + b2) + (a1 + b0) * (a1 + b0) - 4 * (b1 - c2 - a0 + 1)
        = (a0 * a0 + a1 * a1 + a2 * a2 + b0 * b0 + b1 * b1 + b2 * b2 + c0 * c0 + c1 * c1 + c2 * c2 - 3)
          - 2 * ((b1 * c2 - a0) - b2 * c1) + 2 * ((c2 * a0 - b1) - c0 * a2)
          - 2 * ((a0 * b1 - c2) - a1 * b0)"
      by (simp add: algebra_simps)
    also have "\<dots> = 0"
      by (simp only: F P0 P1 P2) simp
    finally show ?thesis by simp
  qed
  show "(c2 - a0 - b1 + 1) * (c2 - a0 - b1 + 1) + (b0 - a1) * (b0 - a1)
           + (a2 + c0) * (a2 + c0) + (b2 + c1) * (b2 + c1) = 4 * (c2 - a0 - b1 + 1)"
  proof -
    have "(c2 - a0 - b1 + 1) * (c2 - a0 - b1 + 1) + (b0 - a1) * (b0 - a1)
           + (a2 + c0) * (a2 + c0) + (b2 + c1) * (b2 + c1) - 4 * (c2 - a0 - b1 + 1)
        = (a0 * a0 + a1 * a1 + a2 * a2 + b0 * b0 + b1 * b1 + b2 * b2 + c0 * c0 + c1 * c1 + c2 * c2 - 3)
          - 2 * ((b1 * c2 - a0) - b2 * c1) - 2 * ((c2 * a0 - b1) - c0 * a2)
          + 2 * ((a0 * b1 - c2) - a1 * b0)"
      by (simp add: algebra_simps)
    also have "\<dots> = 0"
      by (simp only: F P0 P1 P2) simp
    finally show ?thesis by simp
  qed
qed


lemma unit_norm_of_rotation:
  assumes "rotation_matrix R"
  shows "quat_norm2 (rotation_to_quaternion R) = 1"
proof -
  let ?a0 = "R ! 0 ! 0" and ?a1 = "R ! 0 ! 1" and ?a2 = "R ! 0 ! 2"
  let ?b0 = "R ! 1 ! 0" and ?b1 = "R ! 1 ! 1" and ?b2 = "R ! 1 ! 2"
  let ?c0 = "R ! 2 ! 0" and ?c1 = "R ! 2 ! 1" and ?c2 = "R ! 2 ! 2"
  have aa: "?a0 * ?a0 + ?a1 * ?a1 + ?a2 * ?a2 = 1"
    and bb: "?b0 * ?b0 + ?b1 * ?b1 + ?b2 * ?b2 = 1"
    and cc: "?c0 * ?c0 + ?c1 * ?c1 + ?c2 * ?c2 = 1"
    and ab: "?a0 * ?b0 + ?a1 * ?b1 + ?a2 * ?b2 = 0"
    and ac: "?a0 * ?c0 + ?a1 * ?c1 + ?a2 * ?c2 = 0"
    and bc: "?b0 * ?c0 + ?b1 * ?c1 + ?b2 * ?c2 = 0"
    and det: "?a0 * (?b1 * ?c2 - ?b2 * ?c1) - ?a1 * (?b0 * ?c2 - ?b2 * ?c0)
                + ?a2 * (?b0 * ?c1 - ?b1 * ?c0) = 1"
    using assms by (simp_all add: rotation_matrix_def dot3_def det3_def)
  note parts = rotation_parts [OF aa bb cc ab ac bc det]
  show ?thesis
  proof (cases "0 < ?a0 + ?b1 + ?c2")
    case True
    then have D: "0 < ?a0 + ?b1 + ?c2 + 1" by linarith
    show ?thesis
      using True unit_from_parts [OF D parts(1)]
      by (simp add: rotation_to_quaternion_def quat_norm2_def Let_def numeral_2_eq_2)
  next
    case False
    consider (x) "\<not> ?a0 < ?b1" "\<not> ?a0 < ?c2"
      | (y) "?a0 < ?b1" "\<not> ?b1 < ?c2"
      | (z1) "?a0 < ?b1" "?b1 < ?c2"
      | (z2) "\<not> ?a0 < ?b1" "?a0 < ?c2"
      by linarith
    then show ?thesis
    proof cases
      case x
      have D: "0 < ?a0 - ?b1 - ?c2 + 1" using False x by linarith
      show ?thesis
        using False x unit_from_parts [OF D parts(2)]
        by (simp add: rotation_to_quaternion_def quat_norm2_def Let_def numeral_2_eq_2)
    next
      case y
      have D: "0 < ?b1 - ?c2 - ?a0 + 1" using False y by linarith
      show ?thesis
        using False y unit_from_parts [OF D parts(3)]
        by (simp add: rotation_to_quaternion_def quat_norm2_def Let_def numeral_2_eq_2)
    next
      case z1
      have D: "0 < ?c2 - ?a0 - ?b1 + 1" using False z1 by linarith
      show ?thesis
        using False z1 unit_from_parts [OF D parts(4)]
        by (simp add: rotation_to_quaternion_def quat_norm2_def Let_def numeral_2_eq_2)
    next
      case z2
      have D: "0 < ?c2 - ?a0 - ?b1 + 1" using False z2 by linarith
      show ?thesis
        using False z2 unit_from_parts [OF D parts(4)]
        by (simp add: rotation_to_quaternion_def quat_norm2_def Let_def numeral_2_eq_2)
    qed
  qed
qed

text \<open>
  C7. For every valid rotation matrix (three rows of three reals, orthonormal, with
  determinant 1) the quaternion \<open>rotation_to_quaternion\<close> returns has norm 1:
  \<open>w\<^sup>2 + x\<^sup>2 + y\<^sup>2 + z\<^sup>2 = 1\<close>. Applied to the identity matrix it returns \<open>(1, 0, 0, 0)\<close>.
\<close>

theorem rotation_to_quaternion_unit:
  assumes "rotation_matrix R"
  shows "quat_norm2 (rotation_to_quaternion R) = 1
    \<and> rotation_to_quaternion [[1, 0, 0], [0, 1, 0], [0, 0, 1]] = Quaternion 1 0 0 0"
proof -
  have "rotation_to_quaternion [[1, 0, 0], [0, 1, 0], [0, 0, 1]] = Quaternion 1 0 0 0"
    by (simp add: rotation_to_quaternion_def Let_def)
  then show ?thesis
    using unit_norm_of_rotation [OF assms] by simp
qed

theorem rotation_to_quaternion_unit_witness:
  "rotation_matrix [[0, 0, 1], [1, 0, 0], [0, 1, 0]]
   \<and> rotation_to_quaternion [[0, 0, 1], [1, 0, 0], [0, 1, 0]] =
       Quaternion (1 / 2) (1 / 2) (1 / 2) (1 / 2)
   \<and> quat_norm2 (rotation_to_quaternion [[0, 0, 1], [1, 0, 0], [0, 1, 0]]) = 1
   \<and> rotation_matrix [[1, 0, 0], [0, 1, 0], [0, 0, 1]]
   \<and> rotation_to_quaternion [[1, 0, 0], [0, 1, 0], [0, 0, 1]] = Quaternion 1 0 0 0
   \<and> quaternion_of_matrix (exact_platform LittleEndian) = rotation_to_quaternion"
proof -
  have r: "rotation_matrix [[0, 0, 1], [1, 0, 0], [0, 1, 0]]"
    and i: "rotation_matrix [[1, 0, 0], [0, 1, 0], [0, 0, 1]]"
    by (simp_all add: rotation_matrix_def dot3_def det3_def)
  have v: "rotation_to_quaternion [[0, 0, 1], [1, 0, 0], [0, 1, 0]] =
       Quaternion (1 / 2) (1 / 2) (1 / 2) (1 / 2)"
    by (simp add: rotation_to_quaternion_def Let_def)
  have p: "quaternion_of_matrix (exact_platform LittleEndian) = rotation_to_quaternion"
    by (simp add: exact_platform_def)
  from r v rotation_to_quaternion_unit [OF r] i p
  show ?thesis by (intro conjI) simp_all
qed

subsection \<open>Whole runs: what every step preserves\<close>

lemma validate_checksum_defined:
  "validate_checksum b n \<noteq> None \<longleftrightarrow> 2 \<le> unat n \<and> unat n \<le> length b"
proof (cases "2 \<le> unat n \<and> unat n \<le> length b")
  case True
  then have "checksum_loop b n 0 0 = Some (sum16 (take (unat n - 2) b))"
    using checksum_loop_sum [of n b 0 0] by simp
  moreover have "uint n = int (unat n)" by simp
  then have "2 \<le> uint n" using True by linarith
  moreover have "unat n - 1 < length b" using True by linarith
  ultimately show ?thesis
    using True by (simp add: validate_checksum_def Let_def)
next
  case False
  have "uint n = int (unat n)" by simp
  then have "\<not> (2 \<le> uint n \<and> unat n - 1 < length b)"
    using False by linarith
  then show ?thesis
    using False by (auto simp: validate_checksum_def split: option.split)
qed

lemma validate_reply_defined:
  "length b = 4 \<Longrightarrow> \<exists>v. validate_checksum b REPLY_LENGTH = Some v"
  using validate_checksum_defined [of b REPLY_LENGTH] by (simp add: REPLY_LENGTH_def)

lemma validate_data_defined:
  "length b = 79 \<Longrightarrow> \<exists>v. validate_checksum b DATA_LENGTH = Some v"
  using validate_checksum_defined [of b DATA_LENGTH] by (simp add: DATA_LENGTH_def)

lemma advancesI:
  "trace w' = trace w @ evs \<Longrightarrow> list_all Q evs \<Longrightarrow> length (reply w') = length (reply w)
   \<Longrightarrow> length (mode w') = length (mode w) \<Longrightarrow> advances Q w w'"
  by (simp add: advances_def)

lemma advancesD:
  assumes "advances Q w w'"
  shows "\<exists>evs. trace w' = trace w @ evs \<and> list_all Q evs"
proof -
  have "trace w' = take (length (trace w)) (trace w') @ drop (length (trace w)) (trace w')"
    by simp
  then show ?thesis
    using assms unfolding advances_def by metis
qed

lemma advances_sizes:
  "advances Q w w' \<Longrightarrow> length (reply w') = length (reply w) \<and> length (mode w') = length (mode w)"
  by (simp add: advances_def)

lemma advances_refl: "advances Q w w"
  by (simp add: advances_def)

lemma advances_trans:
  assumes "advances Q w w'" and "advances Q w' w''"
  shows "advances Q w w''"
proof -
  obtain evs where a: "trace w' = trace w @ evs" "list_all Q evs"
    using advancesD [OF assms(1)] by blast
  obtain evs' where b: "trace w'' = trace w' @ evs'" "list_all Q evs'"
    using advancesD [OF assms(2)] by blast
  show ?thesis
    using a b advances_sizes [OF assms(1)] advances_sizes [OF assms(2)]
    by (intro advancesI [where evs = "evs @ evs'"]) simp_all
qed

lemma advances_emit: "Q e \<Longrightarrow> advances Q w (emit e w)"
  by (rule advancesI [where evs = "[e]"]) (simp_all add: emit_def)

lemma advances_sleep: "(\<And>e. housekeeping e \<Longrightarrow> Q e) \<Longrightarrow> advances Q w (sleep_100ms P w)"
  by (simp add: sleep_100ms_def advances_emit)

lemma advances_close: "(\<And>e. housekeeping e \<Longrightarrow> Q e) \<Longrightarrow> advances Q w (serial_close w)"
  by (rule advancesI [where evs = "[Close]"]) (simp_all add: serial_close_def emit_def)

lemma advances_fail_close:
  assumes "\<And>e. housekeeping e \<Longrightarrow> Q e"
  shows "advances Q w (fail_close msg w)"
proof -
  have "advances Q w (emit (Log ERROR msg) w)"
    using assms by (intro advances_emit) simp
  moreover have "advances Q (emit (Log ERROR msg) w) (serial_close (emit (Log ERROR msg) w))"
    using assms by (rule advances_close)
  ultimately show ?thesis
    unfolding fail_close_def Let_def by (auto intro: advances_trans)
qed

lemma safe_trans:
  "advances Q w w' \<Longrightarrow> safe Q w' r \<Longrightarrow> safe Q w r"
  by (auto simp: safe_def split: sum.splits intro: advances_trans)

lemma serial_read_result:
  "(\<exists>s. serial_read n w = Inl (s, w) \<and> s \<noteq> Undefined)
   \<or> (\<exists>bs w'. serial_read n w = Inr (bs, w') \<and> length bs = n \<and> advances Q w w'
         \<and> is_open w' = is_open w)"
proof (cases "is_open w \<and> n \<le> length (rx w)")
  case True
  then have "serial_read n w = Inr (take n (rx w), w\<lparr>rx := drop n (rx w)\<rparr>)"
    by (simp add: serial_read_def)
  moreover have "advances Q w (w\<lparr>rx := drop n (rx w)\<rparr>)"
    by (simp add: advances_def)
  ultimately show ?thesis using True by auto
next
  case False
  then show ?thesis
    by (cases "is_open w") (auto simp: serial_read_def)
qed

lemma exchange_safe:
  assumes "length (reply w) = 4" and "Q (Write cmd)"
  shows "case exchange cmd w of
           Inl (s, w') \<Rightarrow> s \<noteq> Undefined \<and> advances Q w w'
         | Inr (v, w') \<Rightarrow> advances Q w w'"
proof (cases "is_open w")
  case False
  then show ?thesis
    by (simp add: exchange_def serial_write_def advances_refl)
next
  case True
  let ?w1 = "emit (Write cmd) w"
  have w1: "advances Q w ?w1" using assms(2) by (rule advances_emit)
  have wr: "serial_write cmd w = Inr ?w1" using True by (simp add: serial_write_def)
  consider (fail) s where "serial_read (unat REPLY_LENGTH) ?w1 = Inl (s, ?w1)" "s \<noteq> Undefined"
    | (ok) bs w2 where "serial_read (unat REPLY_LENGTH) ?w1 = Inr (bs, w2)"
        "length bs = unat REPLY_LENGTH" "advances Q ?w1 w2"
    using serial_read_result [of "unat REPLY_LENGTH" ?w1 Q] by blast
  then show ?thesis
  proof cases
    case (fail s)
    then show ?thesis using w1 by (simp add: exchange_def wr)
  next
    case (ok bs w2)
    let ?w3 = "w2\<lparr>reply := store_into (reply w2) bs\<rparr>"
    have len2: "length (reply w2) = 4"
      using advances_sizes [OF ok(3)] advances_sizes [OF w1] assms(1) by simp
    have len: "length (reply ?w3) = 4"
      using ok(2) len2 by (simp add: store_into_def REPLY_LENGTH_def)
    then obtain v where v: "validate_checksum (reply ?w3) REPLY_LENGTH = Some v"
      using validate_reply_defined by blast
    have "advances Q w2 ?w3"
      using len len2 by (simp add: advances_def)
    then have "advances Q w ?w3"
      using w1 ok(3) by (blast intro: advances_trans)
    then show ?thesis
      using v by (simp add: exchange_def wr ok(1) Let_def)
  qed
qed


lemma permits_housekeeping: "permits P Q \<Longrightarrow> housekeeping e \<Longrightarrow> Q e"
  by (simp add: permits_def)

lemma permits_write: "permits P Q \<Longrightarrow> bs \<noteq> mode_query \<Longrightarrow> Q (Write bs)"
  by (simp add: permits_def)

lemma checked_exchange_safe:
  assumes "length (reply w) = 4" and "Q (Write cmd)" and "\<And>e. housekeeping e \<Longrightarrow> Q e"
  shows "safe Q w
     (case exchange cmd w of
        Inl r \<Rightarrow> Inl r
      | Inr (valid, w1) \<Rightarrow>
          if \<not> valid then Inl (Return (- 1), fail_close msg w1) else Inr w1)"
proof (cases "exchange cmd w")
  case (Inl r)
  then show ?thesis
    using exchange_safe [where Q = Q and cmd = cmd and w = w, OF assms(1,2)] by (cases r) (simp add: safe_def)
next
  case (Inr p)
  obtain valid w1 where p: "p = (valid, w1)" by (cases p)
  have a: "advances Q w w1"
    using exchange_safe [where Q = Q and cmd = cmd and w = w, OF assms(1,2)] Inr p by simp
  have "advances Q w1 (fail_close msg w1)"
    using assms(3) by (rule advances_fail_close)
  then have "advances Q w (fail_close msg w1)"
    using a by (blast intro: advances_trans)
  then show ?thesis
    using a Inr p by (simp add: safe_def)
qed

lemma open_port_safe:
  assumes "\<And>e. housekeeping e \<Longrightarrow> Q e" and "Q (Open port)" and "Q (SetOptions baud)"
  shows "safe Q w (open_port baud port w)"
proof -
  have hk: "Q (Open port)" "Q (SetOptions baud)" "\<And>m. Q (Log ERROR m)"
    using assms by simp_all
  have "\<And>evs w'. trace w' = trace w @ evs \<Longrightarrow> list_all Q evs \<Longrightarrow> reply w' = reply w
      \<Longrightarrow> mode w' = mode w \<Longrightarrow> advances Q w w'"
    by (rule advancesI) simp_all
  then show ?thesis
    using hk
    by (cases "open_script w (opens w)") (simp_all add: open_port_def Let_def safe_def emit_def)
qed

lemma stop_ne_query: "take STOP_CMD_LENGTH stop \<noteq> mode_query"
  by (simp add: STOP_CMD_LENGTH_def stop_def mode_query_def)

lemma stop_streaming_safe:
  assumes "\<And>e. housekeeping e \<Longrightarrow> Q e" and "Q (Write (take STOP_CMD_LENGTH stop))"
  shows "safe Q w (stop_streaming P w)"
proof (cases "is_open w")
  case False
  then show ?thesis
    by (simp add: stop_streaming_def serial_write_def safe_def advances_refl)
next
  case True
  have "advances Q w (sleep_100ms P (emit (Log WARN ''Wait 0.1s'') (emit (Write (take STOP_CMD_LENGTH stop)) w)))"
    using assms
    by (intro advances_trans [OF advances_emit advances_trans [OF advances_emit advances_sleep]])
      simp_all
  then show ?thesis
    using True by (simp add: stop_streaming_def serial_write_def safe_def)
qed


lemma safe_bind:
  assumes "safe Q w r"
    and "\<And>w'. r = Inr w' \<Longrightarrow> advances Q w w' \<Longrightarrow> safe Q w' (f w')"
  shows "safe Q w (case r of Inl x \<Rightarrow> Inl x | Inr w' \<Rightarrow> f w')"
proof (cases r)
  case (Inl x)
  then show ?thesis using assms(1) by simp
next
  case (Inr w')
  then have "advances Q w w'" using assms(1) by (simp add: safe_def)
  then show ?thesis using assms(2) [OF Inr] Inr by (auto intro: safe_trans)
qed

lemma check_mode_safe:
  assumes len: "length (reply w) = 4"
    and hk: "\<And>e. housekeeping e \<Longrightarrow> Q e"
    and wr: "\<And>bs. Q (Write bs)"
    and op: "Q (Open port)" "Q (SetOptions baud)"
  shows "safe Q w (check_mode P baud port w)"
proof (cases "exchange (take MODE_CMD_LENGTH (mode w)) w")
  case (Inl r)
  then show ?thesis
    using exchange_safe [where Q = Q and cmd = "take MODE_CMD_LENGTH (mode w)" and w = w, OF len wr]
    by (cases r) (simp add: check_mode_def safe_def)
next
  case (Inr p)
  obtain valid w1 where p: "p = (valid, w1)" by (cases p)
  have a1: "advances Q w w1"
    using exchange_safe [where Q = Q and cmd = "take MODE_CMD_LENGTH (mode w)" and w = w, OF len wr]
      Inr p by simp
  show ?thesis
  proof (cases valid)
    case True
    then show ?thesis using a1 Inr p by (simp add: check_mode_def safe_def)
  next
    case False
    let ?w2 = "fail_close ''%s: failed to get mode'' w1"
    let ?w3 = "sleep_100ms P (emit (Log WARN ''In Re-Init'') ?w2)"
    have b1: "advances Q w1 ?w2"
      by (rule advances_fail_close) (rule hk)
    have b2: "advances Q ?w2 (emit (Log WARN ''In Re-Init'') ?w2)"
      by (rule advances_emit) (simp add: hk)
    have b3: "advances Q (emit (Log WARN ''In Re-Init'') ?w2) ?w3"
      by (rule advances_sleep) (rule hk)
    have a3: "advances Q w ?w3"
      by (rule advances_trans [OF a1 advances_trans [OF b1 advances_trans [OF b2 b3]]])
    have eq: "check_mode P baud port w =
       (case open_port baud port ?w3 of
          Inl r \<Rightarrow> Inl r
        | Inr w4 \<Rightarrow>
            (case exchange (take 4 (mode w4)) w4 of
               Inl r \<Rightarrow> Inl r
             | Inr (valid', w5) \<Rightarrow>
                 if \<not> valid'
                 then Inl (Return (- 1), fail_close ''%s: failed to get mode'' w5)
                 else Inr w5))"
      using False Inr p by (simp add: check_mode_def Let_def)
    have "safe Q ?w3
       (case open_port baud port ?w3 of
          Inl r \<Rightarrow> Inl r
        | Inr w4 \<Rightarrow>
            (case exchange (take 4 (mode w4)) w4 of
               Inl r \<Rightarrow> Inl r
             | Inr (valid', w5) \<Rightarrow>
                 if \<not> valid'
                 then Inl (Return (- 1), fail_close ''%s: failed to get mode'' w5)
                 else Inr w5))"
    proof (rule safe_bind)
      show "safe Q ?w3 (open_port baud port ?w3)"
        using hk op by (rule open_port_safe)
    next
      fix w4 assume "advances Q ?w3 w4"
      then have "length (reply w4) = 4"
        using advances_sizes [of Q ?w3 w4] advances_sizes [OF a3] len by simp
      then show "safe Q w4
         (case exchange (take 4 (mode w4)) w4 of
            Inl r \<Rightarrow> Inl r
          | Inr (valid', w5) \<Rightarrow>
              if \<not> valid'
              then Inl (Return (- 1), fail_close ''%s: failed to get mode'' w5)
              else Inr w5)"
        using wr hk by (intro checked_exchange_safe) simp_all
    qed
    then show ?thesis
      unfolding eq by (rule safe_trans [OF a3])
  qed
qed

lemma mode_with_last_ne_query:
  assumes "length m = 4" and "b \<noteq> 0"
  shows "take 4 (m[3 := b]) \<noteq> mode_query"
proof
  assume "take 4 (m[3 := b]) = mode_query"
  then have "take 4 (m[3 := b]) ! 3 = mode_query ! 3" by simp
  then show False using assms by (simp add: mode_query_def)
qed

lemma set_active_safe:
  assumes "length (reply w) = 4" and "length (mode w) = 4" and "permits P Q"
  shows "safe Q w (set_active w)"
proof (cases "reply w ! 2 \<noteq> 1")
  case False
  then show ?thesis using assms(1) by (simp add: set_active_def safe_def advances_refl)
next
  case True
  let ?w1 = "w\<lparr>mode := (mode w)[3 := 1]\<rparr>"
  have a: "advances Q w ?w1" by (simp add: advances_def)
  have "Q (Write (take 4 (mode ?w1)))"
    using permits_write [OF assms(3), of "take 4 (mode ?w1)"]
      mode_with_last_ne_query [of "mode w" 1] assms(2) by simp
  then have "safe Q ?w1
     (case exchange (take 4 (mode ?w1)) ?w1 of
        Inl r \<Rightarrow> Inl r
      | Inr (valid, w2) \<Rightarrow>
          if \<not> valid
          then Inl (Return (- 1), fail_close ''%s: failed to set mode to active'' w2)
          else Inr w2)"
    using assms(1) permits_housekeeping [OF assms(3)]
    by (intro checked_exchange_safe) simp_all
  then have "safe Q w
     (case exchange (take 4 (mode ?w1)) ?w1 of
        Inl r \<Rightarrow> Inl r
      | Inr (valid, w2) \<Rightarrow>
          if \<not> valid
          then Inl (Return (- 1), fail_close ''%s: failed to set mode to active'' w2)
          else Inr w2)"
    by (rule safe_trans [OF a])
  then show ?thesis
    using True assms(1) by (simp add: set_active_def Let_def)
qed

lemma set_preset_safe:
  assumes "length (reply w) = 4" and "permits P Q"
  shows "safe Q w (set_preset w)"
proof -
  have "take 4 preset \<noteq> mode_query"
    by (simp add: preset_def mode_query_def)
  then have "Q (Write (take 4 preset))"
    using permits_write [OF assms(2), of "take 4 preset"] by simp
  then show ?thesis
    unfolding set_preset_def
    using assms(1) permits_housekeeping [OF assms(2)]
    by (intro checked_exchange_safe) simp_all
qed

lemma set_continuous_safe:
  assumes "length (reply w) = 4" and "length (mode w) = 4" and "permits P Q"
  shows "safe Q w (set_continuous w)"
proof -
  let ?w1 = "w\<lparr>mode := (mode w)[3 := 2]\<rparr>"
  have a: "advances Q w ?w1" by (simp add: advances_def)
  have "Q (Write (take 4 (mode ?w1)))"
    using permits_write [OF assms(3), of "take 4 (mode ?w1)"]
      mode_with_last_ne_query [of "mode w" 2] assms(2) by simp
  then have "safe Q ?w1
     (case exchange (take 4 (mode ?w1)) ?w1 of
        Inl r \<Rightarrow> Inl r
      | Inr (valid, w2) \<Rightarrow>
          if \<not> valid
          then Inl (Return (- 1), fail_close ''%s: failed to set mode to continuous output'' w2)
          else Inr w2)"
    using assms(1) permits_housekeeping [OF assms(3)]
    by (intro checked_exchange_safe) simp_all
  then have "safe Q w
     (case exchange (take 4 (mode ?w1)) ?w1 of
        Inl r \<Rightarrow> Inl r
      | Inr (valid, w2) \<Rightarrow>
          if \<not> valid
          then Inl (Return (- 1), fail_close ''%s: failed to set mode to continuous output'' w2)
          else Inr w2)"
    by (rule safe_trans [OF a])
  then show ?thesis
    by (simp add: set_continuous_def Let_def)
qed


lemma set_timer_safe:
  assumes "permits P Q"
  shows "case set_timer w of
           Inl (s, w') \<Rightarrow> s \<noteq> Undefined \<and> advances Q w w'
         | Inr (t0, w') \<Rightarrow> advances Q w w'"
proof (cases "is_open w")
  case False
  then show ?thesis
    by (simp add: set_timer_def serial_write_def advances_refl)
next
  case True
  let ?w1 = "emit (Write (take 8 set_timer_cmd)) w"
  have "take 8 set_timer_cmd \<noteq> mode_query"
    by (simp add: set_timer_cmd_def mode_query_def)
  then have "Q (Write (take 8 set_timer_cmd))"
    using permits_write [OF assms, of "take 8 set_timer_cmd"] by simp
  then have w1: "advances Q w ?w1" by (rule advances_emit)
  have wr: "serial_write (take 8 set_timer_cmd) w = Inr ?w1"
    using True by (simp add: serial_write_def)
  consider (fail) s where "serial_read 7 ?w1 = Inl (s, ?w1)" "s \<noteq> Undefined"
    | (ok) bs w2 where "serial_read 7 ?w1 = Inr (bs, w2)" "advances Q ?w1 w2"
    using serial_read_result [of 7 ?w1 Q] by blast
  then show ?thesis
  proof cases
    case (fail s)
    then show ?thesis using w1 by (simp add: set_timer_def wr)
  next
    case (ok bs w2)
    then show ?thesis
      using advances_trans [OF w1 ok(2)] by (simp add: set_timer_def wr)
  qed
qed

lemma stream_loop_safe:
  "permits P Q \<Longrightarrow> 0 < length (orientation_covariance (imu_msg L)) \<Longrightarrow>
   safe Q w (stream_loop P L w)"
proof (induction P L w rule: stream_loop.induct)
  case (1 P L w)
  let ?wp = "w\<lparr>polls := Suc (polls w)\<rparr>"
  have wp: "advances Q w ?wp" by (simp add: advances_def)
  show ?case
  proof (cases "ok_script w (polls w)")
    case False
    then have "stream_loop P L w = Inr ?wp"
      by (subst stream_loop.simps) simp
    then show ?thesis using wp by (simp add: safe_def)
  next
    case True
    then have nn: "\<not> \<not> ok_script w (polls w)" by simp
    consider (fail) s where "serial_read (unat DATA_LENGTH) ?wp = Inl (s, ?wp)" "s \<noteq> Undefined"
      | (ok) bs w1 where "serial_read (unat DATA_LENGTH) ?wp = Inr (bs, w1)"
          "length bs = unat DATA_LENGTH" "advances Q ?wp w1"
      using serial_read_result [of "unat DATA_LENGTH" ?wp Q] by blast
    then show ?thesis
    proof cases
      case (fail s)
      then have "stream_loop P L w = Inl (s, ?wp)"
        using True by (subst stream_loop.simps) simp
      then show ?thesis using wp fail(2) by (simp add: safe_def)
    next
      case (ok bs w1)
      let ?data = "store_into (replicate (unat DATA_LENGTH) 0) bs"
      have len: "length ?data = unat DATA_LENGTH"
        using ok(2) by (simp add: store_into_def)
      then have "length ?data = 79" by (simp add: DATA_LENGTH_def)
      then obtain v where v: "validate_checksum ?data DATA_LENGTH = Some v"
        using validate_data_defined by blast
      have w1: "advances Q w w1" by (rule advances_trans [OF wp ok(3)])
      show ?thesis
      proof (cases v)
        case False
        let ?w2 = "emit (Log ERROR ''%s: checksum failed on message'') w1"
        have "Q (Log ERROR ''%s: checksum failed on message'')"
          using permits_housekeeping [OF "1.prems"(1)] by simp
        then have w2: "advances Q w ?w2"
          using w1 by (blast intro: advances_trans advances_emit)
        have "safe Q ?w2 (stream_loop P L ?w2)"
          using v False by (intro "1.IH"(2) [OF nn ok(1) refl refl _ refl] "1.prems") simp
        moreover have "stream_loop P L w = stream_loop P L ?w2"
          using True v False by (subst stream_loop.simps) (simp add: ok(1) Let_def)
        ultimately show ?thesis using w2 by (simp add: safe_trans)
      next
        case True
        obtain L' imu magm where pf: "process_frame P L ?data = Some (L', [PublishImu imu, PublishMag magm])"
          and L': "imu_msg L' = imu"
          and cov: "orientation_covariance imu = (orientation_covariance (imu_msg L))[0 := double_of_int P (- 1)]"
          using process_frame_at [OF len, of P L] by blast
        let ?w2 = "w1\<lparr>trace := trace w1 @ [PublishImu imu, PublishMag magm]\<rparr>"
        have "orientation_covariance imu ! 0 = double_of_int P (- 1)"
          using cov "1.prems"(2) by simp
        then have "Q (PublishImu imu)" and "Q (PublishMag magm)"
          using "1.prems"(1) by (simp_all add: permits_def)
        then have "advances Q w1 ?w2"
          by (intro advancesI [where evs = "[PublishImu imu, PublishMag magm]"]) simp_all
        then have w2: "advances Q w ?w2"
          using w1 by (blast intro: advances_trans)
        have "0 < length (orientation_covariance (imu_msg L'))"
          using L' cov "1.prems"(2) by simp
        then have "safe Q ?w2 (stream_loop P L' ?w2)"
          using v True pf
          by (intro "1.IH"(1) [OF nn ok(1) refl refl _ refl _ refl] "1.prems"(1)) simp_all
        moreover have "stream_loop P L w = stream_loop P L' ?w2"
          using \<open>ok_script w (polls w)\<close> v True pf
          by (subst stream_loop.simps) (simp add: ok(1) Let_def)
        ultimately show ?thesis using w2 by (simp add: safe_trans)
      qed
    qed
  qed
qed


lemma stream_data_safe:
  assumes "permits P Q"
  shows "fst (stream_data P fid delay w) \<noteq> Undefined
    \<and> advances Q w (snd (stream_data P fid delay w))"
proof (cases "set_timer w")
  case (Inl r)
  then show ?thesis
    using set_timer_safe [OF assms, of w] by (cases r) (simp add: stream_data_def)
next
  case (Inr p)
  obtain t0 w2 where p: "p = (t0, w2)" by (cases p)
  let ?w3 = "emit (Log INFO ''Streaming Data...'') w2"
  let ?L = "\<lparr>loc_frame_id = fid, loc_delay = delay, loc_t0 = t0,
             imu_msg = default_Imu P, mag_msg = default_MagneticField P\<rparr>"
  have "advances Q w w2"
    using set_timer_safe [OF assms, of w] Inr p by simp
  moreover have "advances Q w2 ?w3"
    using permits_housekeeping [OF assms] by (intro advances_emit) simp
  ultimately have w3: "advances Q w ?w3" by (rule advances_trans)
  have "0 < length (orientation_covariance (imu_msg ?L))"
    by (simp add: default_Imu_def Let_def)
  then have loop: "safe Q ?w3 (stream_loop P ?L ?w3)"
    using assms by (intro stream_loop_safe)
  have hk: "\<And>e. housekeeping e \<Longrightarrow> Q e"
    using permits_housekeeping [OF assms] .
  have st: "Q (Write (take STOP_CMD_LENGTH stop))"
    using permits_write [OF assms stop_ne_query] .
  show ?thesis
  proof (cases "stream_loop P ?L ?w3")
    case (Inl r)
    then show ?thesis
      using loop w3 Inr p
      by (cases r) (auto simp: stream_data_def Let_def safe_def intro: advances_trans)
  next
    case loop_done: (Inr w4)
    then have w4: "advances Q w w4"
      using loop w3 by (auto simp: safe_def intro: advances_trans)
    have stop: "safe Q w4 (stop_streaming P w4)"
      using hk st by (rule stop_streaming_safe)
    show ?thesis
    proof (cases "stop_streaming P w4")
      case (Inl r)
      then show ?thesis
        using stop w4 loop_done Inr p
        by (cases r) (auto simp: stream_data_def Let_def safe_def intro: advances_trans)
    next
      case stopped: (Inr w5)
      then have "advances Q w w5"
        using stop w4 by (auto simp: safe_def intro: advances_trans)
      moreover have "advances Q w5 (serial_close w5)"
        using hk by (rule advances_close)
      ultimately have "advances Q w (serial_close w5)" by (rule advances_trans)
      then show ?thesis
        using stopped loop_done Inr p by (simp add: stream_data_def Let_def)
    qed
  qed
qed

lemma case_sum_id: "(case r of Inl x \<Rightarrow> Inl x | Inr w \<Rightarrow> Inr w) = r"
  by (cases r) simp_all

lemma run_steps_3:
  "run_steps [a, b, c] w =
     (case a w of
        Inl r \<Rightarrow> Inl r
      | Inr w1 \<Rightarrow>
          (case b w1 of
             Inl r \<Rightarrow> Inl r
           | Inr w2 \<Rightarrow> (case c w2 of Inl r \<Rightarrow> Inl r | Inr w3 \<Rightarrow> Inr w3)))"
  by (simp split: sum.split)

lemma configure_safe:
  assumes "permits P Q" and "length (reply w) = 4" and "length (mode w) = 4"
  shows "safe Q w (run_steps [set_active, set_preset, set_continuous] w)"
proof -
  have "safe Q w
     (case set_active w of
        Inl r \<Rightarrow> Inl r
      | Inr w1 \<Rightarrow>
          (case set_preset w1 of
             Inl r \<Rightarrow> Inl r
           | Inr w2 \<Rightarrow> (case set_continuous w2 of Inl r \<Rightarrow> Inl r | Inr w3 \<Rightarrow> Inr w3)))"
  proof (rule safe_bind)
    show "safe Q w (set_active w)"
      using assms(2,3,1) by (rule set_active_safe)
  next
    fix w1 assume "advances Q w w1"
    then have l1: "length (reply w1) = 4" "length (mode w1) = 4"
      using advances_sizes [of Q w w1] assms(2,3) by simp_all
    show "safe Q w1
       (case set_preset w1 of
          Inl r \<Rightarrow> Inl r
        | Inr w2 \<Rightarrow> (case set_continuous w2 of Inl r \<Rightarrow> Inl r | Inr w3 \<Rightarrow> Inr w3))"
    proof (rule safe_bind)
      show "safe Q w1 (set_preset w1)"
        using l1(1) assms(1) by (rule set_preset_safe)
    next
      fix w2 assume "advances Q w1 w2"
      then have l2: "length (reply w2) = 4" "length (mode w2) = 4"
        using advances_sizes [of Q w1 w2] l1 by simp_all
      have "safe Q w2 (set_continuous w2)"
        using l2 assms(1) by (rule set_continuous_safe)
      then show "safe Q w2 (case set_continuous w2 of Inl r \<Rightarrow> Inl r | Inr w3 \<Rightarrow> Inr w3)"
        by (simp add: case_sum_id)
    qed
  qed
  then show ?thesis by (simp only: run_steps_3)
qed

lemma connect_safe:
  assumes "\<And>e. housekeeping e \<Longrightarrow> Q e" and "\<And>bs. Q (Write bs)"
    and "length (reply w) = 4"
    and "Q (Open port)" and "Q (SetOptions baud)"
  shows "safe Q w (run_steps [open_port baud port, stop_streaming P, check_mode P baud port] w)"
proof -
  have "safe Q w
     (case open_port baud port w of
        Inl r \<Rightarrow> Inl r
      | Inr w1 \<Rightarrow>
          (case stop_streaming P w1 of
             Inl r \<Rightarrow> Inl r
           | Inr w2 \<Rightarrow> (case check_mode P baud port w2 of Inl r \<Rightarrow> Inl r | Inr w3 \<Rightarrow> Inr w3)))"
  proof (rule safe_bind)
    show "safe Q w (open_port baud port w)"
      using assms(1,4,5) by (rule open_port_safe)
  next
    fix w1 assume "advances Q w w1"
    then have l1: "length (reply w1) = 4"
      using advances_sizes [of Q w w1] assms(3) by simp
    show "safe Q w1
       (case stop_streaming P w1 of
          Inl r \<Rightarrow> Inl r
        | Inr w2 \<Rightarrow> (case check_mode P baud port w2 of Inl r \<Rightarrow> Inl r | Inr w3 \<Rightarrow> Inr w3))"
    proof (rule safe_bind)
      show "safe Q w1 (stop_streaming P w1)"
        using assms(1,2) by (intro stop_streaming_safe)
    next
      fix w2 assume "advances Q w1 w2"
      then have l2: "length (reply w2) = 4"
        using advances_sizes [of Q w1 w2] l1 by simp
      have "safe Q w2 (check_mode P baud port w2)"
        using l2 assms(1,2,4,5) by (intro check_mode_safe)
      then show "safe Q w2 (case check_mode P baud port w2 of Inl r \<Rightarrow> Inl r | Inr w3 \<Rightarrow> Inr w3)"
        by (simp add: case_sum_id)
    qed
  qed
  then show ?thesis by (simp only: run_steps_3)
qed

lemma main_split:
  assumes "port_param prm = Some port"
  shows "main P prm w =
     (case run_steps [open_port (case baud_param prm of None \<Rightarrow> 115200 | Some b \<Rightarrow> b) port,
                      stop_streaming P,
                      check_mode P (case baud_param prm of None \<Rightarrow> 115200 | Some b \<Rightarrow> b) port] w of
        Inl r \<Rightarrow> r
      | Inr w' \<Rightarrow>
          (case run_steps [set_active, set_preset, set_continuous] w' of
             Inl r \<Rightarrow> r
           | Inr w1 \<Rightarrow>
               stream_data P (case frame_id_param prm of None \<Rightarrow> ''imu'' | Some s \<Rightarrow> s)
                 (case delay_param prm of None \<Rightarrow> double_of_rat P 0 | Some d \<Rightarrow> d) w1))"
  using assms by (simp add: main_def Let_def split: sum.splits)

lemma after_connect_safe:
  assumes "permits P Q" and "length (reply w) = 4" and "length (mode w) = 4"
  shows "fst (case run_steps [set_active, set_preset, set_continuous] w of
                Inl r \<Rightarrow> r
              | Inr w1 \<Rightarrow> stream_data P fid delay w1) \<noteq> Undefined
    \<and> advances Q w (snd (case run_steps [set_active, set_preset, set_continuous] w of
                Inl r \<Rightarrow> r
              | Inr w1 \<Rightarrow> stream_data P fid delay w1))"
proof (cases "run_steps [set_active, set_preset, set_continuous] w")
  case (Inl r)
  then show ?thesis
    using configure_safe [OF assms] by (cases r) (simp add: safe_def)
next
  case (Inr w1)
  then have "advances Q w w1"
    using configure_safe [OF assms] by (simp add: safe_def)
  then show ?thesis
    using stream_data_safe [OF assms(1), of fid delay w1] Inr
    by (auto intro: advances_trans)
qed

lemma main_safe:
  assumes "permits P Q" and "\<And>bs. Q (Write bs)"
    and "length (reply w) = 4" and "length (mode w) = 4"
    and "\<And>p. Q (Open p)" and "\<And>b. Q (SetOptions b)"
  shows "fst (main P prm w) \<noteq> Undefined \<and> advances Q w (snd (main P prm w))"
proof (cases "port_param prm")
  case None
  have "Q (Log ERROR ''%s: must provide a port'')"
    using permits_housekeeping [OF assms(1)] by simp
  then show ?thesis
    using None by (simp add: main_def advances_emit)
next
  case (Some port)
  let ?baud = "case baud_param prm of None \<Rightarrow> 115200 | Some b \<Rightarrow> b"
  let ?fid = "case frame_id_param prm of None \<Rightarrow> ''imu'' | Some s \<Rightarrow> s"
  let ?delay = "case delay_param prm of None \<Rightarrow> double_of_rat P 0 | Some d \<Rightarrow> d"
  have hk: "\<And>e. housekeeping e \<Longrightarrow> Q e"
    using permits_housekeeping [OF assms(1)] .
  have head: "safe Q w (run_steps [open_port ?baud port, stop_streaming P, check_mode P ?baud port] w)"
    using hk assms(2,3,5,6) by (rule connect_safe)
  show ?thesis
  proof (cases "run_steps [open_port ?baud port, stop_streaming P, check_mode P ?baud port] w")
    case (Inl r)
    then show ?thesis
      using head by (cases r) (simp add: main_split [OF Some] safe_def)
  next
    case (Inr w')
    then have a: "advances Q w w'"
      using head by (simp add: safe_def)
    then have "length (reply w') = 4" "length (mode w') = 4"
      using advances_sizes [OF a] assms(3,4) by simp_all
    then show ?thesis
      using after_connect_safe [OF assms(1), of w' ?fid ?delay] a Inr
      by (auto simp: main_split [OF Some] intro: advances_trans)
  qed
qed

subsection \<open>A sample run\<close>

lemma unat_REPLY_LENGTH: "unat REPLY_LENGTH = 4"
  by (simp add: REPLY_LENGTH_def)

lemma unat_DATA_LENGTH: "unat DATA_LENGTH = 79"
  by (simp add: DATA_LENGTH_def)

lemma exchange_open:
  assumes "is_open w" and "4 \<le> length (rx w)" and "length (reply w) = 4"
  shows "exchange cmd w =
     (case validate_checksum (take 4 (rx w)) REPLY_LENGTH of
        None \<Rightarrow>
          Inl (Undefined,
               w\<lparr>trace := trace w @ [Write cmd], rx := drop 4 (rx w), reply := take 4 (rx w)\<rparr>)
      | Some valid \<Rightarrow>
          Inr (valid,
               w\<lparr>trace := trace w @ [Write cmd], rx := drop 4 (rx w), reply := take 4 (rx w)\<rparr>))"
  using assms
  by (simp add: exchange_def serial_write_def serial_read_def emit_def store_into_def
      unat_REPLY_LENGTH Let_def min_def split: option.split)

lemma reply_checks:
  "validate_checksum [0xD4, 0xA3, 0x01, 0x77] REPLY_LENGTH = Some True"
  "validate_checksum [0xD6, 0xC6, 0x01, 0x9C] REPLY_LENGTH = Some True"
  using validate_checksum_eq [of "[0xD4, 0xA3, 0x01, 0x77]" REPLY_LENGTH]
    validate_checksum_eq [of "[0xD6, 0xC6, 0x01, 0x9C]" REPLY_LENGTH]
  by (simp_all add: REPLY_LENGTH_def be16_bytes_def sum16_def)

lemma sample_handshake:
  "run_steps [open_port 115200 ''/dev/ttyACM0'', stop_streaming (exact_platform LittleEndian),
        check_mode (exact_platform LittleEndian) 115200 ''/dev/ttyACM0'',
        set_active, set_preset, set_continuous] sample_world =
   Inr \<lparr>is_open = True, open_script = (\<lambda>k. OpenOk), opens = 1,
        rx = [0xD7, 0, 0, 0, 0, 0, 0xD7] @ sample_frame, clock = 100,
        ok_script = (\<lambda>k. k < 1), polls = 0,
        reply = [0xD4, 0xA3, 0x01, 0x77],
        mode = [0xD4, 0xA3, 0x47, 0x02],
        trace = [Open ''/dev/ttyACM0'', SetOptions 115200, Write [0xFA, 0x75, 0xB4],
                 Log WARN ''Wait 0.1s'', Sleep (1 / 10),
                 Write [0xD4, 0xA3, 0x47, 0x00], Write [0xD6, 0xC6, 0x6B, 0xCC],
                 Write [0xD4, 0xA3, 0x47, 0x02]]\<rparr>"
  by (simp add: sample_world_def initial_world_def sample_session_def open_port_def
      stop_streaming_def check_mode_def set_active_def set_preset_def set_continuous_def
      exchange_open serial_write_def emit_def sleep_100ms_def
      exact_platform_def unat_REPLY_LENGTH reply_checks
      STOP_CMD_LENGTH_def MODE_CMD_LENGTH_def stop_def preset_def Let_def of_rat_divide)


lemma sample_run:
  "\<exists>imu magm.
     main (exact_platform LittleEndian) sample_params sample_world =
       (Return 0,
        \<lparr>is_open = False, open_script = (\<lambda>k. OpenOk), opens = 1, rx = [], clock = 100,
         ok_script = (\<lambda>k. k < 1), polls = 2,
         reply = [0xD4, 0xA3, 0x01, 0x77],
         mode = [0xD4, 0xA3, 0x47, 0x02],
         trace = [Open ''/dev/ttyACM0'', SetOptions 115200, Write [0xFA, 0x75, 0xB4],
                  Log WARN ''Wait 0.1s'', Sleep (1 / 10),
                  Write [0xD4, 0xA3, 0x47, 0x00], Write [0xD6, 0xC6, 0x6B, 0xCC],
                  Write [0xD4, 0xA3, 0x47, 0x02],
                  Write [0xD7, 0xC1, 0x29, 0x01, 0x00, 0x00, 0x00, 0x00],
                  Log INFO ''Streaming Data...'',
                  PublishImu imu, PublishMag magm,
                  Write [0xFA, 0x75, 0xB4], Log WARN ''Wait 0.1s'', Sleep (1 / 10), Close]\<rparr>)
     \<and> linear_acceleration imu = Vector3 0 0 (9807 / 1000)
     \<and> stamp (header imu) = 100 + 1 - 1 / 4
     \<and> stamp (header magm) = 100 + 1 - 1 / 4"
proof -
  let ?P = "exact_platform LittleEndian"
  let ?L = "\<lparr>loc_frame_id = ''imu'', loc_delay = 1 / 4, loc_t0 = 100,
             imu_msg = default_Imu ?P, mag_msg = default_MagneticField ?P\<rparr> :: (real, real) locals"
  let ?w8 = "\<lparr>is_open = True, open_script = (\<lambda>k. OpenOk), opens = 1,
        rx = sample_frame, clock = 100,
        ok_script = (\<lambda>k. k < 1), polls = 0,
        reply = [0xD4, 0xA3, 0x01, 0x77],
        mode = [0xD4, 0xA3, 0x47, 0x02],
        trace = [Open ''/dev/ttyACM0'', SetOptions 115200, Write [0xFA, 0x75, 0xB4],
                 Log WARN ''Wait 0.1s'', Sleep (1 / 10),
                 Write [0xD4, 0xA3, 0x47, 0x00], Write [0xD6, 0xC6, 0x6B, 0xCC],
                 Write [0xD4, 0xA3, 0x47, 0x02],
                 Write [0xD7, 0xC1, 0x29, 0x01, 0x00, 0x00, 0x00, 0x00],
                 Log INFO ''Streaming Data...'']\<rparr> :: (real, real, real) world"
  obtain L' imu magm where pf: "process_frame ?P ?L sample_frame = Some (L', [PublishImu imu, PublishMag magm])"
    and la: "linear_acceleration imu =
        Vector3 (double_mult ?P (double_of_float ?P (field32 (host_order ?P) sample_frame 1))
                   (double_of_rat ?P GRAVITY_CONSTANT))
                (double_mult ?P (double_of_float ?P (field32 (host_order ?P) sample_frame 5))
                   (double_of_rat ?P GRAVITY_CONSTANT))
                (double_mult ?P (double_of_float ?P (field32 (host_order ?P) sample_frame 9))
                   (double_of_rat ?P GRAVITY_CONSTANT))"
    and st: "stamp (header imu) =
        time_minus ?P (time_plus ?P (loc_t0 ?L)
          (Duration ?P (double_div ?P (double_of_int ?P (sint (field32 (host_order ?P) sample_frame 73)))
             (double_of_rat ?P 62500))))
          (Duration ?P (loc_delay ?L))"
    and same: "stamp (header magm) = stamp (header imu)"
    using process_frame_at [OF sample_frame_length, of ?P ?L] by blast
  let ?w9 = "?w8\<lparr>polls := Suc (polls ?w8), rx := [],
      trace := trace ?w8 @ [PublishImu imu, PublishMag magm]\<rparr>"
  have "stream_loop ?P ?L ?w8 = stream_loop ?P L' ?w9"
    using stream_loop_read [of ?w8 sample_frame "[]" ?P ?L] sample_frame_length
      sample_frame_valid pf
    by simp
  moreover have "stream_loop ?P L' ?w9 = Inr (?w9\<lparr>polls := Suc (polls ?w9)\<rparr>)"
    by (rule stream_loop_stop) simp
  ultimately have loop: "stream_loop ?P ?L ?w8 = Inr (?w9\<lparr>polls := Suc (polls ?w9)\<rparr>)"
    by simp
  have "main ?P sample_params sample_world =
       (Return 0,
        \<lparr>is_open = False, open_script = (\<lambda>k. OpenOk), opens = 1, rx = [], clock = 100,
         ok_script = (\<lambda>k. k < 1), polls = 2,
         reply = [0xD4, 0xA3, 0x01, 0x77],
         mode = [0xD4, 0xA3, 0x47, 0x02],
         trace = [Open ''/dev/ttyACM0'', SetOptions 115200, Write [0xFA, 0x75, 0xB4],
                  Log WARN ''Wait 0.1s'', Sleep (1 / 10),
                  Write [0xD4, 0xA3, 0x47, 0x00], Write [0xD6, 0xC6, 0x6B, 0xCC],
                  Write [0xD4, 0xA3, 0x47, 0x02],
                  Write [0xD7, 0xC1, 0x29, 0x01, 0x00, 0x00, 0x00, 0x00],
                  Log INFO ''Streaming Data...'',
                  PublishImu imu, PublishMag magm,
                  Write [0xFA, 0x75, 0xB4], Log WARN ''Wait 0.1s'', Sleep (1 / 10), Close]\<rparr>)"
    using sample_handshake loop
    by (simp add: main_def sample_params_def stream_data_def set_timer_def set_timer_cmd_def
        serial_write_def serial_read_def emit_def stop_streaming_def sleep_100ms_def
        serial_close_def STOP_CMD_LENGTH_def stop_def Let_def exact_platform_def
        of_rat_divide)
  moreover have "linear_acceleration imu = Vector3 0 0 (9807 / 1000)"
    using la by (simp add: exact_platform_def sample_fields float_value_simps
        GRAVITY_CONSTANT_def of_rat_divide)
  moreover have "stamp (header imu) = 100 + 1 - 1 / 4"
    using st by (simp add: exact_platform_def sample_fields)
  moreover from this have "stamp (header magm) = 100 + 1 - 1 / 4"
    using same by simp
  ultimately show ?thesis by blast
qed


subsection \<open>A pass of the loop that publishes\<close>

lemma stream_loop_extends:
  "\<exists>evs. trace (final_world (stream_loop P L w)) = trace w @ evs"
proof (induction P L w rule: stream_loop.induct)
  case (1 P L w)
  let ?wp = "w\<lparr>polls := Suc (polls w)\<rparr>"
  show ?case
  proof (cases "ok_script w (polls w)")
    case False
    then have "stream_loop P L w = Inr ?wp"
      by (subst stream_loop.simps) simp
    then show ?thesis by (simp add: final_world_def)
  next
    case True
    then have nn: "\<not> \<not> ok_script w (polls w)" by simp
    consider (fail) s where "serial_read (unat DATA_LENGTH) ?wp = Inl (s, ?wp)"
      | (ok) bs w1 where "serial_read (unat DATA_LENGTH) ?wp = Inr (bs, w1)"
          "advances (\<lambda>e. True) ?wp w1"
      using serial_read_result [of "unat DATA_LENGTH" ?wp "\<lambda>e. True"] by blast
    then show ?thesis
    proof cases
      case (fail s)
      then have "stream_loop P L w = Inl (s, ?wp)"
        using True by (subst stream_loop.simps) simp
      then show ?thesis by (simp add: final_world_def)
    next
      case (ok bs w1)
      let ?data = "store_into (replicate (unat DATA_LENGTH) 0) bs"
      obtain evs1 where w1: "trace w1 = trace w @ evs1"
        using advancesD [OF ok(2)] by auto
      show ?thesis
      proof (cases "validate_checksum ?data DATA_LENGTH")
        case None
        then have "stream_loop P L w = Inl (Undefined, w1)"
          using True by (subst stream_loop.simps) (simp add: ok(1) Let_def)
        then show ?thesis using w1 by (simp add: final_world_def)
      next
        case (Some v)
        show ?thesis
        proof (cases v)
          case False
          let ?w2 = "emit (Log ERROR ''%s: checksum failed on message'') w1"
          have "\<exists>evs. trace (final_world (stream_loop P L ?w2)) = trace ?w2 @ evs"
            using Some False by (intro "1.IH"(2) [OF nn ok(1) refl refl _ refl]) simp
          moreover have "stream_loop P L w = stream_loop P L ?w2"
            using True Some False by (subst stream_loop.simps) (simp add: ok(1) Let_def)
          ultimately show ?thesis using w1 by (auto simp: emit_def)
        next
          case v_true: True
          show ?thesis
          proof (cases "process_frame P L ?data")
            case None
            then have "stream_loop P L w = Inl (Undefined, w1)"
              using True Some v_true by (subst stream_loop.simps) (simp add: ok(1) Let_def)
            then show ?thesis using w1 by (simp add: final_world_def)
          next
            case pf: (Some p)
            obtain L' evs where p: "p = (L', evs)" by (cases p)
            let ?w2 = "w1\<lparr>trace := trace w1 @ evs\<rparr>"
            have "\<exists>evs'. trace (final_world (stream_loop P L' ?w2)) = trace ?w2 @ evs'"
              using Some v_true pf p
              by (intro "1.IH"(1) [OF nn ok(1) refl refl _ refl _ refl]) simp_all
            moreover have "stream_loop P L w = stream_loop P L' ?w2"
              using True Some v_true pf p
              by (subst stream_loop.simps) (simp add: ok(1) Let_def)
            ultimately show ?thesis using w1 by auto
          qed
        qed
      qed
    qed
  qed
qed

text \<open>
  C4. When a pass of the loop reads a frame that passes the checksum, the frame is
  decoded by \<open>process_frame\<close> into one \<open>Imu\<close> and one \<open>MagneticField\<close> message, these two
  messages are published, in this order, right after the events the run had produced
  before, and the loop goes on to the next pass. The linear acceleration is each decoded
  acceleration float times \<open>GRAVITY_CONSTANT\<close> (9.807), the stamp is
  \<open>t0 + Duration(timer / 62500.0) - Duration(delay)\<close>, and both messages carry that stamp.
\<close>

theorem valid_frame_published:
  assumes "ok_script w (polls w)" and "is_open w" and "rx w = data @ rest"
    and "length data = unat DATA_LENGTH"
    and "validate_checksum data DATA_LENGTH = Some True"
  shows "\<exists>L' imu magm evs.
      process_frame P L data = Some (L', [PublishImu imu, PublishMag magm])
    \<and> stream_loop P L w =
        stream_loop P L' (w\<lparr>polls := Suc (polls w), rx := rest,
           trace := trace w @ [PublishImu imu, PublishMag magm]\<rparr>)
    \<and> trace (final_world (stream_loop P L w)) =
        trace w @ [PublishImu imu, PublishMag magm] @ evs
    \<and> loc_t0 L' = loc_t0 L \<and> loc_delay L' = loc_delay L
    \<and> linear_acceleration imu =
        Vector3 (double_mult P (double_of_float P (field32 (host_order P) data 1))
                   (double_of_rat P GRAVITY_CONSTANT))
                (double_mult P (double_of_float P (field32 (host_order P) data 5))
                   (double_of_rat P GRAVITY_CONSTANT))
                (double_mult P (double_of_float P (field32 (host_order P) data 9))
                   (double_of_rat P GRAVITY_CONSTANT))
    \<and> stamp (header imu) =
        time_minus P (time_plus P (loc_t0 L)
          (Duration P (double_div P (double_of_int P (sint (field32 (host_order P) data 73)))
             (double_of_rat P 62500))))
          (Duration P (loc_delay L))
    \<and> stamp (header magm) = stamp (header imu)"
proof -
  obtain L' imu magm where pf: "process_frame P L data = Some (L', [PublishImu imu, PublishMag magm])"
    and rest: "loc_t0 L' = loc_t0 L" "loc_delay L' = loc_delay L"
      "linear_acceleration imu =
        Vector3 (double_mult P (double_of_float P (field32 (host_order P) data 1))
                   (double_of_rat P GRAVITY_CONSTANT))
                (double_mult P (double_of_float P (field32 (host_order P) data 5))
                   (double_of_rat P GRAVITY_CONSTANT))
                (double_mult P (double_of_float P (field32 (host_order P) data 9))
                   (double_of_rat P GRAVITY_CONSTANT))"
      "stamp (header imu) =
        time_minus P (time_plus P (loc_t0 L)
          (Duration P (double_div P (double_of_int P (sint (field32 (host_order P) data 73)))
             (double_of_rat P 62500))))
          (Duration P (loc_delay L))"
      "stamp (header magm) = stamp (header imu)"
    using process_frame_at [OF assms(4), of P L] by blast
  let ?w' = "w\<lparr>polls := Suc (polls w), rx := rest,
           trace := trace w @ [PublishImu imu, PublishMag magm]\<rparr>"
  have pass: "stream_loop P L w = stream_loop P L' ?w'"
    using stream_loop_read [OF assms(1-4), of P L] assms(5) pf by simp
  obtain evs where "trace (final_world (stream_loop P L' ?w')) = trace ?w' @ evs"
    using stream_loop_extends [of P L' ?w'] by blast
  then have "trace (final_world (stream_loop P L w)) =
      trace w @ [PublishImu imu, PublishMag magm] @ evs"
    using pass by simp
  with pf pass rest show ?thesis by blast
qed

theorem valid_frame_published_witness:
  "ok_script (streaming_world sample_frame 1) (polls (streaming_world sample_frame 1))
   \<and> is_open (streaming_world sample_frame 1)
   \<and> rx (streaming_world sample_frame 1) = sample_frame @ []
   \<and> length sample_frame = unat DATA_LENGTH
   \<and> validate_checksum sample_frame DATA_LENGTH = Some True
   \<and> (\<exists>L' imu magm.
        process_frame (exact_platform LittleEndian) example_locals sample_frame =
          Some (L', [PublishImu imu, PublishMag magm])
      \<and> stream_loop (exact_platform LittleEndian) example_locals (streaming_world sample_frame 1) =
          Inr ((streaming_world sample_frame 1)\<lparr>polls := 2, rx := [],
                 trace := [PublishImu imu, PublishMag magm]\<rparr>)
      \<and> trace (final_world (stream_loop (exact_platform LittleEndian) example_locals
                 (streaming_world sample_frame 1))) = [PublishImu imu, PublishMag magm]
      \<and> linear_acceleration imu = Vector3 0 0 (9807 / 1000)
      \<and> stamp (header imu) = 100 + 1 - 1 / 4
      \<and> stamp (header magm) = 100 + 1 - 1 / 4)
   \<and> (\<exists>imu magm.
        main (exact_platform LittleEndian) sample_params sample_world =
          (Return 0,
           \<lparr>is_open = False, open_script = (\<lambda>k. OpenOk), opens = 1, rx = [], clock = 100,
            ok_script = (\<lambda>k. k < 1), polls = 2,
            reply = [0xD4, 0xA3, 0x01, 0x77],
            mode = [0xD4, 0xA3, 0x47, 0x02],
            trace = [Open ''/dev/ttyACM0'', SetOptions 115200, Write [0xFA, 0x75, 0xB4],
                     Log WARN ''Wait 0.1s'', Sleep (1 / 10),
                     Write [0xD4, 0xA3, 0x47, 0x00], Write [0xD6, 0xC6, 0x6B, 0xCC],
                     Write [0xD4, 0xA3, 0x47, 0x02],
                     Write [0xD7, 0xC1, 0x29, 0x01, 0x00, 0x00, 0x00, 0x00],
                     Log INFO ''Streaming Data...'',
                     PublishImu imu, PublishMag magm,
                     Write [0xFA, 0x75, 0xB4], Log WARN ''Wait 0.1s'', Sleep (1 / 10), Close]\<rparr>)
      \<and> linear_acceleration imu = Vector3 0 0 (9807 / 1000)
      \<and> stamp (header imu) = 100 + 1 - 1 / 4
      \<and> stamp (header magm) = 100 + 1 - 1 / 4)"
proof -
  let ?P = "exact_platform LittleEndian"
  let ?w = "streaming_world sample_frame 1"
  have h1: "ok_script ?w (polls ?w)" and h2: "is_open ?w" and h3: "rx ?w = sample_frame @ []"
    by (simp_all add: streaming_world_def)
  obtain L' imu magm evs where
    pf: "process_frame ?P example_locals sample_frame = Some (L', [PublishImu imu, PublishMag magm])"
    and pass: "stream_loop ?P example_locals ?w =
        stream_loop ?P L' (?w\<lparr>polls := Suc (polls ?w), rx := [],
           trace := trace ?w @ [PublishImu imu, PublishMag magm]\<rparr>)"
    and la: "linear_acceleration imu =
        Vector3 (double_mult ?P (double_of_float ?P (field32 (host_order ?P) sample_frame 1))
                   (double_of_rat ?P GRAVITY_CONSTANT))
                (double_mult ?P (double_of_float ?P (field32 (host_order ?P) sample_frame 5))
                   (double_of_rat ?P GRAVITY_CONSTANT))
                (double_mult ?P (double_of_float ?P (field32 (host_order ?P) sample_frame 9))
                   (double_of_rat ?P GRAVITY_CONSTANT))"
    and st: "stamp (header imu) =
        time_minus ?P (time_plus ?P (loc_t0 example_locals)
          (Duration ?P (double_div ?P (double_of_int ?P (sint (field32 (host_order ?P) sample_frame 73)))
             (double_of_rat ?P 62500))))
          (Duration ?P (loc_delay example_locals))"
    and same: "stamp (header magm) = stamp (header imu)"
    using valid_frame_published [OF h1 h2 h3 sample_frame_length sample_frame_valid,
        of ?P example_locals]
    by blast
  let ?w' = "?w\<lparr>polls := Suc (polls ?w), rx := [],
           trace := trace ?w @ [PublishImu imu, PublishMag magm]\<rparr>"
  have "stream_loop ?P L' ?w' = Inr (?w'\<lparr>polls := Suc (polls ?w')\<rparr>)"
    by (rule stream_loop_stop) (simp add: streaming_world_def)
  then have run: "stream_loop ?P example_locals ?w =
      Inr (?w\<lparr>polls := 2, rx := [], trace := [PublishImu imu, PublishMag magm]\<rparr>)"
    using pass by (simp add: streaming_world_def)
  then have tr: "trace (final_world (stream_loop ?P example_locals ?w)) =
      [PublishImu imu, PublishMag magm]"
    by (simp add: final_world_def)
  have la': "linear_acceleration imu = Vector3 0 0 (9807 / 1000)"
    using la by (simp add: exact_platform_def sample_fields float_value_simps
        GRAVITY_CONSTANT_def of_rat_divide)
  have st': "stamp (header imu) = 100 + 1 - 1 / 4"
    using st by (simp add: exact_platform_def sample_fields example_locals_def)
  have "\<exists>L' imu magm.
        process_frame ?P example_locals sample_frame =
          Some (L', [PublishImu imu, PublishMag magm])
      \<and> stream_loop ?P example_locals ?w =
          Inr (?w\<lparr>polls := 2, rx := [], trace := [PublishImu imu, PublishMag magm]\<rparr>)
      \<and> trace (final_world (stream_loop ?P example_locals ?w)) = [PublishImu imu, PublishMag magm]
      \<and> linear_acceleration imu = Vector3 0 0 (9807 / 1000)
      \<and> stamp (header imu) = 100 + 1 - 1 / 4
      \<and> stamp (header magm) = 100 + 1 - 1 / 4"
    using pf run tr la' st' same by auto
  with h1 h2 h3 sample_frame_length sample_frame_valid sample_run
  show ?thesis by (intro conjI)
qed

subsection \<open>Every run of main\<close>

lemma initial_world_sizes:
  "length (reply (initial_world os bytes now oks)) = 4"
  "length (mode (initial_world os bytes now oks)) = 4"
  "trace (initial_world os bytes now oks) = []"
  by (simp_all add: initial_world_def REPLY_LENGTH_def)

lemma permits_covariance_flagged: "permits P (covariance_flagged P)"
proof -
  have "\<And>e. housekeeping e \<Longrightarrow> covariance_flagged P e"
    by (case_tac e) simp_all
  then show ?thesis by (simp add: permits_def)
qed

lemma permits_True: "permits P (\<lambda>e. True)"
  by (simp add: permits_def)

text \<open>
  C8. In every run of \<open>main\<close>, from the initial state and whatever the device sends, each
  \<open>Imu\<close> message handed to the publisher has \<open>orientation_covariance[0] = -1\<close>.
\<close>

theorem orientation_covariance_flagged:
  fixes P :: "('d, 't, 'u) platform"
  shows "\<forall>m. PublishImu m \<in> set (trace (snd (main P prm (initial_world os bytes now oks))))
       \<longrightarrow> orientation_covariance m ! 0 = double_of_int P (- 1)"
proof (intro allI impI)
  fix m
  let ?w0 = "initial_world os bytes now oks :: ('d, 't, 'u) world"
  assume m: "PublishImu m \<in> set (trace (snd (main P prm ?w0)))"
  have "advances (covariance_flagged P) ?w0 (snd (main P prm ?w0))"
    using main_safe [OF permits_covariance_flagged, where w = ?w0 and prm = prm]
    by (simp add: initial_world_sizes)
  then obtain evs where "trace (snd (main P prm ?w0)) = trace ?w0 @ evs"
    and "list_all (covariance_flagged P) evs"
    using advancesD by blast
  then have "covariance_flagged P (PublishImu m)"
    using m by (auto simp: initial_world_sizes list_all_iff)
  then show "orientation_covariance m ! 0 = double_of_int P (- 1)"
    by simp
qed

theorem orientation_covariance_flagged_witness:
  "\<exists>m. PublishImu m \<in> set (trace (snd (main (exact_platform LittleEndian) sample_params sample_world)))
       \<and> orientation_covariance m ! 0 = - 1"
proof -
  obtain imu where "PublishImu imu \<in> set (trace (snd (main (exact_platform LittleEndian) sample_params sample_world)))"
    using sample_run by auto
  moreover from this have "orientation_covariance imu ! 0 = double_of_int (exact_platform LittleEndian) (- 1)"
    using orientation_covariance_flagged [of "exact_platform LittleEndian" sample_params
        "\<lambda>k. OpenOk" sample_session 100 "\<lambda>k. k < 1"]
    by (simp add: sample_world_def)
  ultimately show ?thesis
    by (auto simp: exact_platform_def)
qed

text \<open>
  C10. \<open>validate_checksum\<close> stays inside its buffer exactly when the length passed is at
  least 2 and at most the size of the buffer. \<open>main\<close> calls it with \<open>REPLY_LENGTH = 4\<close> on
  \<open>reply\<close> and with \<open>DATA_LENGTH = 79\<close> on \<open>data\<close>, arrays of those sizes, and no run of
  \<open>main\<close>, from the initial state and whatever the device sends, ends in an out-of-bounds
  read.
\<close>

theorem checksum_calls_in_bounds:
  "fst (main P prm (initial_world os bytes now oks)) \<noteq> Undefined
   \<and> (validate_checksum b n \<noteq> None) = (2 \<le> unat n \<and> unat n \<le> length b)
   \<and> unat REPLY_LENGTH = 4 \<and> unat DATA_LENGTH = 79
   \<and> length (reply (initial_world os bytes now oks)) = unat REPLY_LENGTH"
  using main_safe [OF permits_True, where w = "initial_world os bytes now oks" and P = P and prm = prm]
    validate_checksum_defined [of b n]
  by (simp add: initial_world_sizes unat_REPLY_LENGTH unat_DATA_LENGTH)

subsection \<open>The mode query and its repetition\<close>

lemma permits_tail: "permits P (\<lambda>e. e \<noteq> Write mode_query \<and> \<not> open_attempt e)"
proof -
  have "\<And>e :: ('a, 'b, 'c) event. housekeeping e \<Longrightarrow> e \<noteq> Write mode_query \<and> \<not> open_attempt e"
    by (case_tac e) simp_all
  then show ?thesis by (simp add: permits_def)
qed

lemma stop_ne_mode_query: "stop \<noteq> mode_query"
  by (simp add: stop_def mode_query_def)

lemma exchange_short:
  assumes "is_open w" and "length (rx w) < 4"
  shows "exchange cmd w = Inl (Blocked, w\<lparr>trace := trace w @ [Write cmd]\<rparr>)"
  using assms
  by (simp add: exchange_def serial_write_def serial_read_def emit_def unat_REPLY_LENGTH)

lemma connect_first_two:
  fixes P :: "('d, 't, 'u) platform"
  assumes "os 0 = OpenOk"
  shows "run_steps [open_port baud port, stop_streaming P]
           (initial_world os bytes now oks) =
     Inr \<lparr>is_open = True, open_script = os, opens = 1, rx = bytes, clock = now,
          ok_script = oks, polls = 0, reply = replicate 4 0, mode = mode_query,
          trace = [Open port, SetOptions baud, Write stop, Log WARN ''Wait 0.1s'',
                   Sleep (Duration P (double_of_rat P (1 / 10)))]\<rparr>"
  using assms
  by (simp add: initial_world_def open_port_def stop_streaming_def
      serial_write_def emit_def sleep_100ms_def
      unat_REPLY_LENGTH STOP_CMD_LENGTH_def stop_def mode_query_def Let_def)

lemma check_mode_first_fails:
  fixes P :: "('d, 't, 'u) platform"
  assumes "length bad_reply = 4" and "validate_checksum bad_reply REPLY_LENGTH = Some False"
  shows "check_mode P baud port
           \<lparr>is_open = True, open_script = os, opens = 1, rx = bad_reply @ rest, clock = now,
            ok_script = oks, polls = 0, reply = replicate 4 0, mode = mode_query,
            trace = [Open port, SetOptions baud, Write stop, Log WARN ''Wait 0.1s'',
                     Sleep (Duration P (double_of_rat P (1 / 10)))]\<rparr> =
     (case open_port baud port
             \<lparr>is_open = False, open_script = os, opens = 1, rx = rest, clock = now,
              ok_script = oks, polls = 0, reply = bad_reply, mode = mode_query,
              trace = [Open port, SetOptions baud, Write stop, Log WARN ''Wait 0.1s'',
                       Sleep (Duration P (double_of_rat P (1 / 10))), Write mode_query,
                       Log ERROR ''%s: failed to get mode'', Close,
                       Log WARN ''In Re-Init'',
                       Sleep (Duration P (double_of_rat P (1 / 10)))]\<rparr> of
        Inl r \<Rightarrow> Inl r
      | Inr w4 \<Rightarrow>
          (case exchange (take 4 (mode w4)) w4 of
             Inl r \<Rightarrow> Inl r
           | Inr (valid', w5) \<Rightarrow>
               if \<not> valid'
               then Inl (Return (- 1), fail_close ''%s: failed to get mode'' w5)
               else Inr w5))"
  using assms
  by (simp add: check_mode_def exchange_open serial_close_def fail_close_def emit_def
      sleep_100ms_def MODE_CMD_LENGTH_def mode_query_def Let_def)



lemma tail_keeps_prefix:
  fixes P :: "('d, 't, 'u) platform" and w :: "('d, 't, 'u) world"
  assumes "length (reply w) = 4" and "length (mode w) = 4"
  shows "\<exists>evs. trace (snd (case run_steps [set_active, set_preset, set_continuous] w of
                               Inl r \<Rightarrow> r
                             | Inr w1 \<Rightarrow> stream_data P fid delay w1)) = trace w @ evs
    \<and> count_list evs (Write mode_query) = 0 \<and> filter open_attempt evs = []"
proof -
  let ?w' = "snd (case run_steps [set_active, set_preset, set_continuous] w of
                    Inl r \<Rightarrow> r
                  | Inr w1 \<Rightarrow> stream_data P fid delay w1)"
  have "advances (\<lambda>e. e \<noteq> Write mode_query \<and> \<not> open_attempt e) w ?w'"
    using after_connect_safe [OF permits_tail assms(1,2), where P = P and fid = fid
          and delay = delay] by simp
  then obtain evs where evs: "trace ?w' = trace w @ evs"
    and all: "list_all (\<lambda>e. e \<noteq> Write mode_query \<and> \<not> open_attempt e) evs"
    using advancesD by blast
  have "Write mode_query \<notin> set evs"
    using all by (auto simp: list_all_iff)
  then have "count_list evs (Write mode_query) = 0"
    by (simp add: count_list_0_iff)
  moreover have "filter open_attempt evs = []"
    using all by (auto simp: list_all_iff filter_empty_conv)
  ultimately show ?thesis
    using evs by blast
qed

lemma first_failure_run:
  fixes P :: "('d, 't, 'u) platform"
  assumes "port_param prm = Some port" and "os 0 = OpenOk"
    and "length bad_reply = 4" and "validate_checksum bad_reply REPLY_LENGTH = Some False"
  shows
   "let baud = (case baud_param prm of None \<Rightarrow> 115200 | Some b \<Rightarrow> b);
        fid = (case frame_id_param prm of None \<Rightarrow> ''imu'' | Some s \<Rightarrow> s);
        delay = (case delay_param prm of None \<Rightarrow> double_of_rat P 0 | Some d \<Rightarrow> d);
        nap = Sleep (Duration P (double_of_rat P (1 / 10)));
        attempt = [Open port, SetOptions baud, Write stop, Log WARN ''Wait 0.1s'', nap,
                   Write mode_query, Log ERROR ''%s: failed to get mode'', Close,
                   Log WARN ''In Re-Init'', nap, Open port];
        resent = attempt @ [SetOptions baud, Write mode_query];
        reopened = \<lparr>is_open = True, open_script = os, opens = 2, rx = rest, clock = now,
                    ok_script = oks, polls = 0, reply = bad_reply, mode = mode_query,
                    trace = resent\<rparr>;
        run = main P prm (initial_world os (bad_reply @ rest) now oks)
    in take 11 (trace (snd run)) = attempt
     \<and> length (filter open_attempt (trace (snd run))) = 2
     \<and> count_list (trace (snd run)) (Write mode_query) = (if os 1 = OpenOk then 2 else 1)
     \<and> (os 1 = OpenThrows \<longrightarrow>
          run = (Return (- 1),
                 reopened\<lparr>is_open := False,
                   trace := attempt @ [Log ERROR ''%s: Failed to open port %s with error %s'']\<rparr>))
     \<and> (os 1 = OpenStaysClosed \<longrightarrow>
          run = (Return (- 1),
                 reopened\<lparr>is_open := False,
                   trace := attempt @ [Log ERROR ''%s: failed to open serial port %s'']\<rparr>))
     \<and> (os 1 = OpenOk \<longrightarrow> take 13 (trace (snd run)) = resent)
     \<and> (os 1 = OpenOk \<and> length rest < 4 \<longrightarrow> run = (Blocked, reopened))
     \<and> (os 1 = OpenOk \<and> 4 \<le> length rest
          \<and> validate_checksum (take 4 rest) REPLY_LENGTH = Some False \<longrightarrow>
          run = (Return (- 1),
                 reopened\<lparr>is_open := False, rx := drop 4 rest, reply := take 4 rest,
                   trace := resent @ [Log ERROR ''%s: failed to get mode'', Close]\<rparr>))
     \<and> (os 1 = OpenOk \<and> 4 \<le> length rest
          \<and> validate_checksum (take 4 rest) REPLY_LENGTH = Some True \<longrightarrow>
          run = (case run_steps [set_active, set_preset, set_continuous]
                        (reopened\<lparr>rx := drop 4 rest, reply := take 4 rest\<rparr>) of
                   Inl r \<Rightarrow> r
                 | Inr w1 \<Rightarrow> stream_data P fid delay w1))"
proof -
  let ?baud = "case baud_param prm of None \<Rightarrow> 115200 | Some b \<Rightarrow> b"
  let ?fid = "case frame_id_param prm of None \<Rightarrow> ''imu'' | Some s \<Rightarrow> s"
  let ?delay = "case delay_param prm of None \<Rightarrow> double_of_rat P 0 | Some d \<Rightarrow> d"
  let ?w0 = "initial_world os (bad_reply @ rest) now oks :: ('d, 't, 'u) world"
  let ?E10 = "[Open port, SetOptions ?baud, Write stop, Log WARN ''Wait 0.1s'',
               Sleep (Duration P (double_of_rat P (1 / 10))), Write mode_query,
               Log ERROR ''%s: failed to get mode'', Close, Log WARN ''In Re-Init'',
               Sleep (Duration P (double_of_rat P (1 / 10)))] :: ('d, 't, 'u) event list"
  let ?w3 = "\<lparr>is_open = False, open_script = os, opens = 1, rx = rest, clock = now,
              ok_script = oks, polls = 0, reply = bad_reply, mode = mode_query,
              trace = ?E10\<rparr> :: ('d, 't, 'u) world"
  let ?retry = "case open_port ?baud port ?w3 of
        Inl r \<Rightarrow> Inl r
      | Inr w4 \<Rightarrow>
          (case exchange (take 4 (mode w4)) w4 of
             Inl r \<Rightarrow> Inl r
           | Inr (valid', w5) \<Rightarrow>
               if \<not> valid'
               then Inl (Return (- 1), fail_close ''%s: failed to get mode'' w5)
               else Inr w5)"
  have ne: "stop \<noteq> mode_query"
    by (simp add: stop_def mode_query_def)
  have "run_steps [open_port ?baud port, stop_streaming P, check_mode P ?baud port] ?w0 =
      (case run_steps [open_port ?baud port, stop_streaming P] ?w0 of
         Inl r \<Rightarrow> Inl r
       | Inr w2 \<Rightarrow> check_mode P ?baud port w2)"
    by (simp add: case_sum_id split: sum.split)
  then have connect: "run_steps [open_port ?baud port, stop_streaming P, check_mode P ?baud port] ?w0
      = ?retry"
    using connect_first_two [where os = os and baud = ?baud and port = port and P = P
          and bytes = "bad_reply @ rest" and now = now and oks = oks, OF assms(2)]
      check_mode_first_fails [where bad_reply = bad_reply and P = P and baud = ?baud and port = port
          and os = os and rest = rest and now = now and oks = oks, OF assms(3,4)]
    by simp
  have run: "main P prm ?w0 =
      (case ?retry of
         Inl r \<Rightarrow> r
       | Inr w' \<Rightarrow>
           (case run_steps [set_active, set_preset, set_continuous] w' of
              Inl r \<Rightarrow> r
            | Inr w1 \<Rightarrow> stream_data P ?fid ?delay w1))"
    using main_split [OF assms(1), where P = P and w = ?w0] connect by simp
  show ?thesis
  proof (cases "os 1")
    case OpenThrows
    then have "open_port ?baud port ?w3 =
        Inl (Return (- 1), ?w3\<lparr>opens := 2,
          trace := ?E10 @ [Open port, Log ERROR ''%s: Failed to open port %s with error %s'']\<rparr>)"
      by (simp add: open_port_def emit_def)
    then have "main P prm ?w0 =
        (Return (- 1), ?w3\<lparr>opens := 2,
          trace := ?E10 @ [Open port, Log ERROR ''%s: Failed to open port %s with error %s'']\<rparr>)"
      by (simp only: run sum.case)
    then show ?thesis
      using OpenThrows ne by (simp add: Let_def)
  next
    case OpenStaysClosed
    then have "open_port ?baud port ?w3 =
        Inl (Return (- 1), ?w3\<lparr>opens := 2,
          trace := ?E10 @ [Open port, Log ERROR ''%s: failed to open serial port %s'']\<rparr>)"
      by (simp add: open_port_def emit_def)
    then have "main P prm ?w0 =
        (Return (- 1), ?w3\<lparr>opens := 2,
          trace := ?E10 @ [Open port, Log ERROR ''%s: failed to open serial port %s'']\<rparr>)"
      by (simp only: run sum.case)
    then show ?thesis
      using OpenStaysClosed ne by (simp add: Let_def)
  next
    case OpenOk
    let ?w4 = "?w3\<lparr>opens := 2, is_open := True,
        trace := ?E10 @ [Open port, SetOptions ?baud]\<rparr>"
    have op: "open_port ?baud port ?w3 = Inr ?w4"
      using OpenOk by (simp add: open_port_def emit_def)
    have run4: "main P prm ?w0 =
        (case (case exchange (take 4 (mode ?w4)) ?w4 of
                 Inl r \<Rightarrow> Inl r
               | Inr (valid', w5) \<Rightarrow>
                   if \<not> valid'
                   then Inl (Return (- 1), fail_close ''%s: failed to get mode'' w5)
                   else Inr w5) of
           Inl r \<Rightarrow> r
         | Inr w' \<Rightarrow>
             (case run_steps [set_active, set_preset, set_continuous] w' of
                Inl r \<Rightarrow> r
              | Inr w1 \<Rightarrow> stream_data P ?fid ?delay w1))"
      by (simp only: run op sum.case)
    show ?thesis
    proof (cases "4 \<le> length rest")
      case False
      then have "exchange (take 4 (mode ?w4)) ?w4 =
          Inl (Blocked, ?w4\<lparr>trace := trace ?w4 @ [Write mode_query]\<rparr>)"
        by (subst exchange_short) (simp_all add: mode_query_def)
      then have "main P prm ?w0 =
          (Blocked, ?w4\<lparr>trace := trace ?w4 @ [Write mode_query]\<rparr>)"
        by (simp only: run4 sum.case)
      then show ?thesis
        using OpenOk False ne by (simp add: Let_def)
    next
      case True
      let ?w5 = "?w4\<lparr>trace := trace ?w4 @ [Write mode_query], rx := drop 4 rest,
          reply := take 4 rest\<rparr>"
      obtain v where v: "validate_checksum (take 4 rest) REPLY_LENGTH = Some v"
        using validate_reply_defined [of "take 4 rest"] True by auto
      have ex: "exchange (take 4 (mode ?w4)) ?w4 = Inr (v, ?w5)"
        using True v assms(3) by (subst exchange_open) (simp_all add: mode_query_def)
      show ?thesis
      proof (cases v)
        case False
        then have "main P prm ?w0 =
            (Return (- 1), fail_close ''%s: failed to get mode'' ?w5)"
          by (simp only: run4 ex sum.case prod.case not_False_eq_True if_True)
        then show ?thesis
          using OpenOk True v False ne
          by (simp add: Let_def fail_close_def serial_close_def emit_def)
      next
        case v_true: True
        let ?tail = "case run_steps [set_active, set_preset, set_continuous] ?w5 of
               Inl r \<Rightarrow> r
             | Inr w1 \<Rightarrow> stream_data P ?fid ?delay w1"
        have m: "main P prm ?w0 = ?tail"
          using v_true by (simp only: run4 ex sum.case prod.case not_True_eq_False if_False)
        have "length (reply ?w5) = 4" "length (mode ?w5) = 4"
          using True by (simp_all add: mode_query_def)
        then obtain evs where evs: "trace (snd ?tail) = trace ?w5 @ evs"
          and none: "count_list evs (Write mode_query) = 0" "filter open_attempt evs = []"
          using tail_keeps_prefix [where w = ?w5 and P = P and fid = ?fid and delay = ?delay]
          by blast
        have tr: "trace (snd (main P prm ?w0)) =
            ?E10 @ [Open port, SetOptions ?baud, Write mode_query] @ evs"
          using evs by (simp only: m) simp
        have parts: "take 11 (trace (snd (main P prm ?w0))) = ?E10 @ [Open port]"
          "take 13 (trace (snd (main P prm ?w0))) = ?E10 @ [Open port, SetOptions ?baud, Write mode_query]"
          "length (filter open_attempt (trace (snd (main P prm ?w0)))) = 2"
          "count_list (trace (snd (main P prm ?w0))) (Write mode_query) = 2"
          using none ne by (simp_all only: tr) simp_all
        have w5: "?w5 = \<lparr>is_open = True, open_script = os, opens = 2, rx = drop 4 rest,
            clock = now, ok_script = oks, polls = 0, reply = take 4 rest, mode = mode_query,
            trace = ?E10 @ [Open port, SetOptions ?baud, Write mode_query]\<rparr>"
          by simp
        have m': "main P prm ?w0 =
            (case run_steps [set_active, set_preset, set_continuous]
                \<lparr>is_open = True, open_script = os, opens = 2, rx = drop 4 rest,
                  clock = now, ok_script = oks, polls = 0, reply = take 4 rest, mode = mode_query,
                  trace = ?E10 @ [Open port, SetOptions ?baud, Write mode_query]\<rparr> of
               Inl r \<Rightarrow> r
             | Inr w1 \<Rightarrow> stream_data P ?fid ?delay w1)"
          using m by (simp only: w5)
        show ?thesis
          using OpenOk True v v_true parts
          by (simp add: Let_def) (simp add: m')
      qed
    qed
  qed
qed

lemma retry_tail:
  "\<exists>imu magm.
     (case run_steps [set_active, set_preset, set_continuous]
             \<lparr>is_open = True, open_script = (\<lambda>k. OpenOk), opens = 2,
               rx = drop 4 sample_session, clock = 100, ok_script = (\<lambda>k. k < 1), polls = 0,
               reply = take 4 sample_session, mode = mode_query, trace = T\<rparr> of
        Inl r \<Rightarrow> r
      | Inr w1 \<Rightarrow> stream_data (exact_platform LittleEndian) ''imu'' (1 / 4) w1) =
       (Return 0,
        \<lparr>is_open = False, open_script = (\<lambda>k. OpenOk), opens = 2, rx = [], clock = 100,
         ok_script = (\<lambda>k. k < 1), polls = 2,
         reply = [0xD4, 0xA3, 0x01, 0x77],
         mode = [0xD4, 0xA3, 0x47, 0x02],
         trace = T @ [Write [0xD6, 0xC6, 0x6B, 0xCC], Write [0xD4, 0xA3, 0x47, 0x02],
                  Write [0xD7, 0xC1, 0x29, 0x01, 0x00, 0x00, 0x00, 0x00],
                  Log INFO ''Streaming Data...'',
                  PublishImu imu, PublishMag magm,
                  Write [0xFA, 0x75, 0xB4], Log WARN ''Wait 0.1s'', Sleep (1 / 10), Close]\<rparr>)
     \<and> linear_acceleration imu = Vector3 0 0 (9807 / 1000)
     \<and> stamp (header imu) = 100 + 1 - 1 / 4"
proof -
  let ?P = "exact_platform LittleEndian"
  let ?L = "\<lparr>loc_frame_id = ''imu'', loc_delay = 1 / 4, loc_t0 = 100,
             imu_msg = default_Imu ?P, mag_msg = default_MagneticField ?P\<rparr> :: (real, real) locals"
  let ?w5 = "\<lparr>is_open = True, open_script = (\<lambda>k. OpenOk), opens = 2,
               rx = drop 4 sample_session, clock = 100, ok_script = (\<lambda>k. k < 1), polls = 0,
               reply = take 4 sample_session, mode = mode_query, trace = T\<rparr>
             :: (real, real, real) world"
  let ?w7 = "\<lparr>is_open = True, open_script = (\<lambda>k. OpenOk), opens = 2,
        rx = [0xD7, 0, 0, 0, 0, 0, 0xD7] @ sample_frame, clock = 100,
        ok_script = (\<lambda>k. k < 1), polls = 0,
        reply = [0xD4, 0xA3, 0x01, 0x77],
        mode = [0xD4, 0xA3, 0x47, 0x02],
        trace = T @ [Write [0xD6, 0xC6, 0x6B, 0xCC], Write [0xD4, 0xA3, 0x47, 0x02]]\<rparr>
        :: (real, real, real) world"
  let ?w8 = "\<lparr>is_open = True, open_script = (\<lambda>k. OpenOk), opens = 2,
        rx = sample_frame, clock = 100,
        ok_script = (\<lambda>k. k < 1), polls = 0,
        reply = [0xD4, 0xA3, 0x01, 0x77],
        mode = [0xD4, 0xA3, 0x47, 0x02],
        trace = T @ [Write [0xD6, 0xC6, 0x6B, 0xCC], Write [0xD4, 0xA3, 0x47, 0x02],
                 Write [0xD7, 0xC1, 0x29, 0x01, 0x00, 0x00, 0x00, 0x00],
                 Log INFO ''Streaming Data...'']\<rparr> :: (real, real, real) world"
  have hs: "run_steps [set_active, set_preset, set_continuous] ?w5 = Inr ?w7"
    by (simp add: sample_session_def set_active_def set_preset_def set_continuous_def
        exchange_open unat_REPLY_LENGTH reply_checks mode_query_def preset_def Let_def)
  obtain L' imu magm where pf: "process_frame ?P ?L sample_frame = Some (L', [PublishImu imu, PublishMag magm])"
    and la: "linear_acceleration imu =
        Vector3 (double_mult ?P (double_of_float ?P (field32 (host_order ?P) sample_frame 1))
                   (double_of_rat ?P GRAVITY_CONSTANT))
                (double_mult ?P (double_of_float ?P (field32 (host_order ?P) sample_frame 5))
                   (double_of_rat ?P GRAVITY_CONSTANT))
                (double_mult ?P (double_of_float ?P (field32 (host_order ?P) sample_frame 9))
                   (double_of_rat ?P GRAVITY_CONSTANT))"
    and st: "stamp (header imu) =
        time_minus ?P (time_plus ?P (loc_t0 ?L)
          (Duration ?P (double_div ?P (double_of_int ?P (sint (field32 (host_order ?P) sample_frame 73)))
             (double_of_rat ?P 62500))))
          (Duration ?P (loc_delay ?L))"
    using process_frame_at [OF sample_frame_length, of ?P ?L] by blast
  let ?w9 = "?w8\<lparr>polls := Suc (polls ?w8), rx := [],
      trace := trace ?w8 @ [PublishImu imu, PublishMag magm]\<rparr>"
  have "stream_loop ?P ?L ?w8 = stream_loop ?P L' ?w9"
    using stream_loop_read [of ?w8 sample_frame "[]" ?P ?L] sample_frame_length
      sample_frame_valid pf
    by simp
  moreover have "stream_loop ?P L' ?w9 = Inr (?w9\<lparr>polls := Suc (polls ?w9)\<rparr>)"
    by (rule stream_loop_stop) simp
  ultimately have loop: "stream_loop ?P ?L ?w8 = Inr (?w9\<lparr>polls := Suc (polls ?w9)\<rparr>)"
    by simp
  have "(case run_steps [set_active, set_preset, set_continuous] ?w5 of
        Inl r \<Rightarrow> r
      | Inr w1 \<Rightarrow> stream_data ?P ''imu'' (1 / 4) w1) = stream_data ?P ''imu'' (1 / 4) ?w7"
    by (simp only: hs sum.case)
  also have "\<dots> =
       (Return 0,
        \<lparr>is_open = False, open_script = (\<lambda>k. OpenOk), opens = 2, rx = [], clock = 100,
         ok_script = (\<lambda>k. k < 1), polls = 2,
         reply = [0xD4, 0xA3, 0x01, 0x77],
         mode = [0xD4, 0xA3, 0x47, 0x02],
         trace = T @ [Write [0xD6, 0xC6, 0x6B, 0xCC], Write [0xD4, 0xA3, 0x47, 0x02],
                  Write [0xD7, 0xC1, 0x29, 0x01, 0x00, 0x00, 0x00, 0x00],
                  Log INFO ''Streaming Data...'',
                  PublishImu imu, PublishMag magm,
                  Write [0xFA, 0x75, 0xB4], Log WARN ''Wait 0.1s'', Sleep (1 / 10), Close]\<rparr>)"
    using loop
    by (simp add: stream_data_def set_timer_def set_timer_cmd_def
        serial_write_def serial_read_def emit_def stop_streaming_def sleep_100ms_def
        serial_close_def STOP_CMD_LENGTH_def stop_def Let_def exact_platform_def
        of_rat_divide)
  finally have "(case run_steps [set_active, set_preset, set_continuous] ?w5 of
        Inl r \<Rightarrow> r
      | Inr w1 \<Rightarrow> stream_data ?P ''imu'' (1 / 4) w1) =
       (Return 0,
        \<lparr>is_open = False, open_script = (\<lambda>k. OpenOk), opens = 2, rx = [], clock = 100,
         ok_script = (\<lambda>k. k < 1), polls = 2,
         reply = [0xD4, 0xA3, 0x01, 0x77],
         mode = [0xD4, 0xA3, 0x47, 0x02],
         trace = T @ [Write [0xD6, 0xC6, 0x6B, 0xCC], Write [0xD4, 0xA3, 0x47, 0x02],
                  Write [0xD7, 0xC1, 0x29, 0x01, 0x00, 0x00, 0x00, 0x00],
                  Log INFO ''Streaming Data...'',
                  PublishImu imu, PublishMag magm,
                  Write [0xFA, 0x75, 0xB4], Log WARN ''Wait 0.1s'', Sleep (1 / 10), Close]\<rparr>)" .
  moreover have "linear_acceleration imu = Vector3 0 0 (9807 / 1000)"
    using la by (simp add: exact_platform_def sample_fields float_value_simps
        GRAVITY_CONSTANT_def of_rat_divide)
  moreover have "stamp (header imu) = 100 + 1 - 1 / 4"
    using st by (simp add: exact_platform_def sample_fields)
  ultimately show ?thesis by blast
qed

text \<open>
  C6. When the reply to the first mode query fails the checksum, the port is closed and
  one attempt is made to reopen it: the first eleven events of the run are fixed, up to
  the second \<open>open\<close>, and the run holds two calls of \<open>open\<close> in all, the first one
  included. When the port reopens, the query is sent again, once: the whole run holds
  two writes of the query. If the second reply fails the checksum too, \<open>main\<close> returns
  \<open>-1\<close> with the port closed and nothing published; if it passes, the run is the rest of
  the handshake and the streaming from the state reached, as after a first reply that
  passes; if the device sends no second reply, the read never returns. A port that does
  not reopen is the start-up error of a port that cannot be opened: \<open>main\<close> returns \<open>-1\<close>
  at once, and the query has been written once.
\<close>

theorem mode_query_retried_once:
  fixes P :: "('d, 't, 'u) platform"
  assumes "port_param prm = Some port" and "os 0 = OpenOk"
    and "length bad_reply = 4" and "validate_checksum bad_reply REPLY_LENGTH = Some False"
  shows
   "let baud = (case baud_param prm of None \<Rightarrow> 115200 | Some b \<Rightarrow> b);
        fid = (case frame_id_param prm of None \<Rightarrow> ''imu'' | Some s \<Rightarrow> s);
        delay = (case delay_param prm of None \<Rightarrow> double_of_rat P 0 | Some d \<Rightarrow> d);
        nap = Sleep (Duration P (double_of_rat P (1 / 10)));
        attempt = [Open port, SetOptions baud, Write stop, Log WARN ''Wait 0.1s'', nap,
                   Write mode_query, Log ERROR ''%s: failed to get mode'', Close,
                   Log WARN ''In Re-Init'', nap, Open port];
        resent = attempt @ [SetOptions baud, Write mode_query];
        reopened = \<lparr>is_open = True, open_script = os, opens = 2, rx = rest, clock = now,
                    ok_script = oks, polls = 0, reply = bad_reply, mode = mode_query,
                    trace = resent\<rparr>;
        run = main P prm (initial_world os (bad_reply @ rest) now oks)
    in take 11 (trace (snd run)) = attempt
     \<and> length (filter open_attempt (trace (snd run))) = 2
     \<and> count_list (trace (snd run)) (Write mode_query) = (if os 1 = OpenOk then 2 else 1)
     \<and> (os 1 = OpenThrows \<longrightarrow>
          run = (Return (- 1),
                 reopened\<lparr>is_open := False,
                   trace := attempt @ [Log ERROR ''%s: Failed to open port %s with error %s'']\<rparr>))
     \<and> (os 1 = OpenStaysClosed \<longrightarrow>
          run = (Return (- 1),
                 reopened\<lparr>is_open := False,
                   trace := attempt @ [Log ERROR ''%s: failed to open serial port %s'']\<rparr>))
     \<and> (os 1 = OpenOk \<longrightarrow> take 13 (trace (snd run)) = resent)
     \<and> (os 1 = OpenOk \<and> length rest < 4 \<longrightarrow> run = (Blocked, reopened))
     \<and> (os 1 = OpenOk \<and> 4 \<le> length rest
          \<and> validate_checksum (take 4 rest) REPLY_LENGTH = Some False \<longrightarrow>
          run = (Return (- 1),
                 reopened\<lparr>is_open := False, rx := drop 4 rest, reply := take 4 rest,
                   trace := resent @ [Log ERROR ''%s: failed to get mode'', Close]\<rparr>))
     \<and> (os 1 = OpenOk \<and> 4 \<le> length rest
          \<and> validate_checksum (take 4 rest) REPLY_LENGTH = Some True \<longrightarrow>
          run = (case run_steps [set_active, set_preset, set_continuous]
                        (reopened\<lparr>rx := drop 4 rest, reply := take 4 rest\<rparr>) of
                   Inl r \<Rightarrow> r
                 | Inr w1 \<Rightarrow> stream_data P fid delay w1))"
  using assms by (rule first_failure_run)

theorem mode_query_retried_once_witness:
  "port_param sample_params = Some ''/dev/ttyACM0''
   \<and> validate_checksum [0xD4, 0xA3, 0, 0] REPLY_LENGTH = Some False
   \<and> main (exact_platform LittleEndian) sample_params failing_world =
       (Return (- 1),
        \<lparr>is_open = False, open_script = (\<lambda>k. OpenOk), opens = 2, rx = [], clock = 100,
         ok_script = (\<lambda>k. True), polls = 0, reply = [0xD4, 0xA3, 0, 0],
         mode = mode_query,
         trace = [Open ''/dev/ttyACM0'', SetOptions 115200, Write stop, Log WARN ''Wait 0.1s'',
                  Sleep (1 / 10), Write mode_query,
                  Log ERROR ''%s: failed to get mode'', Close, Log WARN ''In Re-Init'',
                  Sleep (1 / 10), Open ''/dev/ttyACM0'', SetOptions 115200,
                  Write mode_query, Log ERROR ''%s: failed to get mode'', Close]\<rparr>)
   \<and> length (filter open_attempt
         (trace (snd (main (exact_platform LittleEndian) sample_params failing_world)))) = 2
   \<and> count_list (trace (snd (main (exact_platform LittleEndian) sample_params failing_world)))
         (Write mode_query) = 2
   \<and> validate_checksum (take 4 sample_session) REPLY_LENGTH = Some True
   \<and> (\<exists>imu magm.
        main (exact_platform LittleEndian) sample_params retry_world =
          (Return 0,
           \<lparr>is_open = False, open_script = (\<lambda>k. OpenOk), opens = 2, rx = [], clock = 100,
            ok_script = (\<lambda>k. k < 1), polls = 2,
            reply = [0xD4, 0xA3, 0x01, 0x77],
            mode = [0xD4, 0xA3, 0x47, 0x02],
            trace = [Open ''/dev/ttyACM0'', SetOptions 115200, Write stop, Log WARN ''Wait 0.1s'',
                     Sleep (1 / 10), Write mode_query,
                     Log ERROR ''%s: failed to get mode'', Close, Log WARN ''In Re-Init'',
                     Sleep (1 / 10), Open ''/dev/ttyACM0'', SetOptions 115200,
                     Write mode_query,
                     Write [0xD6, 0xC6, 0x6B, 0xCC], Write [0xD4, 0xA3, 0x47, 0x02],
                     Write [0xD7, 0xC1, 0x29, 0x01, 0x00, 0x00, 0x00, 0x00],
                     Log INFO ''Streaming Data...'',
                     PublishImu imu, PublishMag magm,
                     Write [0xFA, 0x75, 0xB4], Log WARN ''Wait 0.1s'', Sleep (1 / 10), Close]\<rparr>))
   \<and> length (filter open_attempt
         (trace (snd (main (exact_platform LittleEndian) sample_params retry_world)))) = 2
   \<and> count_list (trace (snd (main (exact_platform LittleEndian) sample_params retry_world)))
         (Write mode_query) = 2"
proof -
  let ?P = "exact_platform LittleEndian"
  let ?T = "[Open ''/dev/ttyACM0'', SetOptions 115200, Write stop, Log WARN ''Wait 0.1s'',
             Sleep (1 / 10), Write mode_query,
             Log ERROR ''%s: failed to get mode'', Close, Log WARN ''In Re-Init'',
             Sleep (1 / 10), Open ''/dev/ttyACM0'', SetOptions 115200,
             Write mode_query] :: (real, real, real) event list"
  have h1: "port_param sample_params = Some ''/dev/ttyACM0''"
    by (simp add: sample_params_def)
  have h2: "(\<lambda>k :: nat. OpenOk) 0 = OpenOk"
    by simp
  have h3: "length [0xD4, 0xA3, 0, 0 :: u8] = 4"
    by simp
  have h4: "validate_checksum [0xD4, 0xA3, 0, 0] REPLY_LENGTH = Some False"
    using validate_checksum_eq [of "[0xD4, 0xA3, 0, 0]" REPLY_LENGTH]
    by (simp add: REPLY_LENGTH_def be16_bytes_def sum16_def)
  have h5: "validate_checksum (take 4 sample_session) REPLY_LENGTH = Some True"
    by (simp add: sample_session_def reply_checks)
  have h6: "4 \<le> length sample_session"
    by (simp add: sample_session_def)
  note failing = mode_query_retried_once [where prm = sample_params and port = "''/dev/ttyACM0''"
        and os = "\<lambda>k. OpenOk" and bad_reply = "[0xD4, 0xA3, 0, 0]"
        and rest = "[0xD4, 0xA3, 0, 0]" and P = ?P
        and now = 100 and oks = "\<lambda>k. True", OF h1 h2 h3 h4]
  note retry = mode_query_retried_once [where prm = sample_params and port = "''/dev/ttyACM0''"
        and os = "\<lambda>k. OpenOk" and bad_reply = "[0xD4, 0xA3, 0, 0]"
        and rest = sample_session and P = ?P
        and now = 100 and oks = "\<lambda>k. k < 1", OF h1 h2 h3 h4]
  have f: "main ?P sample_params failing_world =
       (Return (- 1),
        \<lparr>is_open = False, open_script = (\<lambda>k. OpenOk), opens = 2, rx = [], clock = 100,
         ok_script = (\<lambda>k. True), polls = 0, reply = [0xD4, 0xA3, 0, 0],
         mode = mode_query,
         trace = [Open ''/dev/ttyACM0'', SetOptions 115200, Write stop, Log WARN ''Wait 0.1s'',
                  Sleep (1 / 10), Write mode_query,
                  Log ERROR ''%s: failed to get mode'', Close, Log WARN ''In Re-Init'',
                  Sleep (1 / 10), Open ''/dev/ttyACM0'', SetOptions 115200,
                  Write mode_query, Log ERROR ''%s: failed to get mode'', Close]\<rparr>)"
    "length (filter open_attempt (trace (snd (main ?P sample_params failing_world)))) = 2"
    "count_list (trace (snd (main ?P sample_params failing_world))) (Write mode_query) = 2"
    using failing h4 stop_ne_mode_query
    by (simp_all add: Let_def failing_world_def sample_params_def exact_platform_def of_rat_divide)
  have fid: "(case frame_id_param sample_params of None \<Rightarrow> ''imu'' | Some s \<Rightarrow> s) = ''imu''"
    by (simp add: sample_params_def)
  have delay: "(case delay_param sample_params of None \<Rightarrow> double_of_rat ?P 0 | Some d \<Rightarrow> d) = 1 / 4"
    by (simp add: sample_params_def)
  note parts = retry [unfolded Let_def fid delay]
  have r: "main ?P sample_params retry_world =
      (case run_steps [set_active, set_preset, set_continuous]
             \<lparr>is_open = True, open_script = (\<lambda>k. OpenOk), opens = 2,
               rx = drop 4 sample_session, clock = 100, ok_script = (\<lambda>k. k < 1), polls = 0,
               reply = take 4 sample_session, mode = mode_query, trace = ?T\<rparr> of
        Inl r \<Rightarrow> r
      | Inr w1 \<Rightarrow> stream_data ?P ''imu'' (1 / 4) w1)"
    using parts [THEN conjunct2, THEN conjunct2, THEN conjunct2, THEN conjunct2,
        THEN conjunct2, THEN conjunct2, THEN conjunct2, THEN conjunct2] h5 h6
    by (simp add: retry_world_def sample_params_def exact_platform_def of_rat_divide)
  have r2: "length (filter open_attempt (trace (snd (main ?P sample_params retry_world)))) = 2"
    using parts [THEN conjunct2, THEN conjunct1]
    by (simp add: retry_world_def)
  have r3: "count_list (trace (snd (main ?P sample_params retry_world))) (Write mode_query) = 2"
    using parts [THEN conjunct2, THEN conjunct2, THEN conjunct1]
    by (simp add: retry_world_def)
  have "\<exists>imu magm.
        main ?P sample_params retry_world =
          (Return 0,
           \<lparr>is_open = False, open_script = (\<lambda>k. OpenOk), opens = 2, rx = [], clock = 100,
            ok_script = (\<lambda>k. k < 1), polls = 2,
            reply = [0xD4, 0xA3, 0x01, 0x77],
            mode = [0xD4, 0xA3, 0x47, 0x02],
            trace = [Open ''/dev/ttyACM0'', SetOptions 115200, Write stop, Log WARN ''Wait 0.1s'',
                     Sleep (1 / 10), Write mode_query,
                     Log ERROR ''%s: failed to get mode'', Close, Log WARN ''In Re-Init'',
                     Sleep (1 / 10), Open ''/dev/ttyACM0'', SetOptions 115200,
                     Write mode_query,
                     Write [0xD6, 0xC6, 0x6B, 0xCC], Write [0xD4, 0xA3, 0x47, 0x02],
                     Write [0xD7, 0xC1, 0x29, 0x01, 0x00, 0x00, 0x00, 0x00],
                     Log INFO ''Streaming Data...'',
                     PublishImu imu, PublishMag magm,
                     Write [0xFA, 0x75, 0xB4], Log WARN ''Wait 0.1s'', Sleep (1 / 10), Close]\<rparr>)"
    using retry_tail [of ?T] by (simp only: r) auto
  with h1 h4 f h5 r2 r3
  show ?thesis by (intro conjI)
qed

end
